theory Spec2Isabelle
  imports Complex_Main "HOL-Library.AList"
begin

section \<open>Exceptions\<close>

text \<open>
  Every exception that \<^verbatim>\<open>multical/tables.py\<close> or the numpy calls it makes can raise is a
  value; a function that can raise returns \<open>error + 'a\<close>, with \<open>Inl\<close> for the exception.
\<close>

datatype error =
  IndexError | ValueError | AssertionError | KeyError | TypeError | AttributeError
  | AxisError | LinAlgError

text \<open>
  A loop or comprehension whose body can raise stops at the first exception.
\<close>

fun mapM :: "('a \<Rightarrow> error + 'b) \<Rightarrow> 'a list \<Rightarrow> error + 'b list" where
  "mapM f [] = Inr []"
| "mapM f (x # xs) =
     (case f x of
        Inl e \<Rightarrow> Inl e
      | Inr y \<Rightarrow> (case mapM f xs of Inl e \<Rightarrow> Inl e | Inr ys \<Rightarrow> Inr (y # ys)))"

section \<open>Index assignment on the first axis\<close>

text \<open>
  \<^verbatim>\<open>dense[ids] = values\<close> with an integer index list: every index is taken modulo the
  length when it is negative and rejected when it is outside \<open>[-n, n)\<close>; the values are
  broadcast along the first axis (one row per index, or one single row for all of them);
  the rows are then stored one after the other, so that the last row stored at an index
  stays. A row (everything behind the first axis) is an element of type \<open>'a\<close>. When an
  index is out of range and the number of rows is wrong as well, the model reports the
  index; no statement below depends on which of the two is reported.
\<close>

definition norm_index :: "nat \<Rightarrow> int \<Rightarrow> error + nat" where
  "norm_index n i =
     (if 0 \<le> i \<and> i < int n then Inr (nat i)
      else if - int n \<le> i \<and> i < 0 then Inr (nat (int n + i))
      else Inl IndexError)"

fun norm_indices :: "nat \<Rightarrow> int list \<Rightarrow> error + nat list" where
  "norm_indices n [] = Inr []"
| "norm_indices n (i # ids) =
     (case norm_index n i of
        Inl e \<Rightarrow> Inl e
      | Inr j \<Rightarrow> (case norm_indices n ids of Inl e \<Rightarrow> Inl e | Inr js \<Rightarrow> Inr (j # js)))"

definition broadcast_rows :: "nat \<Rightarrow> 'a list \<Rightarrow> error + 'a list" where
  "broadcast_rows k vals =
     (if length vals = k then Inr vals
      else if length vals = 1 then Inr (replicate k (hd vals))
      else Inl ValueError)"

fun assign_rows :: "'a list \<Rightarrow> nat list \<Rightarrow> 'a list \<Rightarrow> 'a list" where
  "assign_rows dense (j # js) (v # vs) = assign_rows (dense[j := v]) js vs"
| "assign_rows dense _ _ = dense"

definition setitem :: "'a list \<Rightarrow> int list \<Rightarrow> 'a list \<Rightarrow> error + 'a list" where
  "setitem dense ids vals =
     (case norm_indices (length dense) ids of
        Inl e \<Rightarrow> Inl e
      | Inr js \<Rightarrow>
          (case broadcast_rows (length ids) vals of
             Inl e \<Rightarrow> Inl e
           | Inr vs \<Rightarrow> Inr (assign_rows dense js vs)))"

section \<open>fill_sparse and fill_sparse_tile\<close>

text \<open>
  \<^verbatim>\<open>
  def fill_sparse(n, values, ids):
    dense = np.zeros((n, *values.shape[1:]), dtype=values.dtype)
    dense[ids] = values
    mask = np.full(n, False)
    mask[ids] = True
    return dense, mask
  \<close>
  Both arrays are created inside the function and nothing that was passed in is written to.
\<close>

definition fill_sparse :: "nat \<Rightarrow> ('a::zero) list \<Rightarrow> int list \<Rightarrow> error + ('a list \<times> bool list)" where
  "fill_sparse n vals ids =
     (case setitem (replicate n 0) ids vals of
        Inl e \<Rightarrow> Inl e
      | Inr dense \<Rightarrow>
          (case setitem (replicate n False) ids [True] of
             Inl e \<Rightarrow> Inl e
           | Inr msk \<Rightarrow> Inr (dense, msk)))"

text \<open>
  \<^verbatim>\<open>
  def fill_sparse_tile(n, values, ids, tile):
    assert tile.shape == values.shape[1:]
    dense = np.broadcast_to(np.expand_dims(tile, 0), (n, *tile.shape)).copy()
    dense[ids] = values
    mask = np.full(n, False)
    mask[ids] = True
    return dense, mask
  \<close>
  The rows and the tile have one type here, so the assertion on their shapes holds.
\<close>

definition fill_sparse_tile :: "nat \<Rightarrow> 'a list \<Rightarrow> int list \<Rightarrow> 'a \<Rightarrow> error + ('a list \<times> bool list)" where
  "fill_sparse_tile n vals ids tile =
     (case setitem (replicate n tile) ids vals of
        Inl e \<Rightarrow> Inl e
      | Inr dense \<Rightarrow>
          (case setitem (replicate n False) ids [True] of
             Inl e \<Rightarrow> Inl e
           | Inr msk \<Rightarrow> Inr (dense, msk)))"

section \<open>Rigid transforms: 4 by 4 matrices\<close>

text \<open>
  A pose is a 4 by 4 homogeneous matrix (\<^verbatim>\<open>np.eye(4)\<close> is the identity pose). The
  entries are real numbers: the arithmetic of the model is exact, and the rounding of the
  floating-point numbers numpy computes with is not part of it. \<open>matmul\<close> is numpy's
  \<^verbatim>\<open>@\<close> on two such matrices.
\<close>

datatype mat4 = Mat4
  (m00: real) (m01: real) (m02: real) (m03: real) (m10: real) (m11: real) (m12: real)
  (m13: real) (m20: real) (m21: real) (m22: real) (m23: real) (m30: real) (m31: real)
  (m32: real) (m33: real)

definition eye4 :: mat4 where
  "eye4 = Mat4 1 0 0 0  0 1 0 0  0 0 1 0  0 0 0 1"

definition matmul :: "mat4 \<Rightarrow> mat4 \<Rightarrow> mat4" where
  "matmul A B = Mat4
     (m00 A * m00 B + m01 A * m10 B + m02 A * m20 B + m03 A * m30 B)
     (m00 A * m01 B + m01 A * m11 B + m02 A * m21 B + m03 A * m31 B)
     (m00 A * m02 B + m01 A * m12 B + m02 A * m22 B + m03 A * m32 B)
     (m00 A * m03 B + m01 A * m13 B + m02 A * m23 B + m03 A * m33 B)
     (m10 A * m00 B + m11 A * m10 B + m12 A * m20 B + m13 A * m30 B)
     (m10 A * m01 B + m11 A * m11 B + m12 A * m21 B + m13 A * m31 B)
     (m10 A * m02 B + m11 A * m12 B + m12 A * m22 B + m13 A * m32 B)
     (m10 A * m03 B + m11 A * m13 B + m12 A * m23 B + m13 A * m33 B)
     (m20 A * m00 B + m21 A * m10 B + m22 A * m20 B + m23 A * m30 B)
     (m20 A * m01 B + m21 A * m11 B + m22 A * m21 B + m23 A * m31 B)
     (m20 A * m02 B + m21 A * m12 B + m22 A * m22 B + m23 A * m32 B)
     (m20 A * m03 B + m21 A * m13 B + m22 A * m23 B + m23 A * m33 B)
     (m30 A * m00 B + m31 A * m10 B + m32 A * m20 B + m33 A * m30 B)
     (m30 A * m01 B + m31 A * m11 B + m32 A * m21 B + m33 A * m31 B)
     (m30 A * m02 B + m31 A * m12 B + m32 A * m22 B + m33 A * m32 B)
     (m30 A * m03 B + m31 A * m13 B + m32 A * m23 B + m33 A * m33 B)"

definition scale :: "real \<Rightarrow> mat4 \<Rightarrow> mat4" where
  "scale c M = Mat4
     (c * m00 M) (c * m01 M) (c * m02 M) (c * m03 M) (c * m10 M) (c * m11 M) (c * m12 M)
     (c * m13 M) (c * m20 M) (c * m21 M) (c * m22 M) (c * m23 M) (c * m30 M) (c * m31 M)
     (c * m32 M) (c * m33 M)"

definition det3 :: "real \<Rightarrow> real \<Rightarrow> real \<Rightarrow> real \<Rightarrow> real \<Rightarrow> real \<Rightarrow> real \<Rightarrow> real \<Rightarrow> real \<Rightarrow> real" where
  "det3 a b c d e f g h i = a * (e * i - f * h) - b * (d * i - f * g) + c * (d * h - e * g)"

definition det :: "mat4 \<Rightarrow> real" where
  "det M =
     m00 M * det3 (m11 M) (m12 M) (m13 M) (m21 M) (m22 M) (m23 M) (m31 M) (m32 M) (m33 M)
     - m01 M * det3 (m10 M) (m12 M) (m13 M) (m20 M) (m22 M) (m23 M) (m30 M) (m32 M) (m33 M)
     + m02 M * det3 (m10 M) (m11 M) (m13 M) (m20 M) (m21 M) (m23 M) (m30 M) (m31 M) (m33 M)
     - m03 M * det3 (m10 M) (m11 M) (m12 M) (m20 M) (m21 M) (m22 M) (m30 M) (m31 M) (m32 M)"

definition adjugate :: "mat4 \<Rightarrow> mat4" where
  "adjugate M = Mat4
     (det3 (m11 M) (m12 M) (m13 M) (m21 M) (m22 M) (m23 M) (m31 M) (m32 M) (m33 M))
     (- det3 (m01 M) (m02 M) (m03 M) (m21 M) (m22 M) (m23 M) (m31 M) (m32 M) (m33 M))
     (det3 (m01 M) (m02 M) (m03 M) (m11 M) (m12 M) (m13 M) (m31 M) (m32 M) (m33 M))
     (- det3 (m01 M) (m02 M) (m03 M) (m11 M) (m12 M) (m13 M) (m21 M) (m22 M) (m23 M))
     (- det3 (m10 M) (m12 M) (m13 M) (m20 M) (m22 M) (m23 M) (m30 M) (m32 M) (m33 M))
     (det3 (m00 M) (m02 M) (m03 M) (m20 M) (m22 M) (m23 M) (m30 M) (m32 M) (m33 M))
     (- det3 (m00 M) (m02 M) (m03 M) (m10 M) (m12 M) (m13 M) (m30 M) (m32 M) (m33 M))
     (det3 (m00 M) (m02 M) (m03 M) (m10 M) (m12 M) (m13 M) (m20 M) (m22 M) (m23 M))
     (det3 (m10 M) (m11 M) (m13 M) (m20 M) (m21 M) (m23 M) (m30 M) (m31 M) (m33 M))
     (- det3 (m00 M) (m01 M) (m03 M) (m20 M) (m21 M) (m23 M) (m30 M) (m31 M) (m33 M))
     (det3 (m00 M) (m01 M) (m03 M) (m10 M) (m11 M) (m13 M) (m30 M) (m31 M) (m33 M))
     (- det3 (m00 M) (m01 M) (m03 M) (m10 M) (m11 M) (m13 M) (m20 M) (m21 M) (m23 M))
     (- det3 (m10 M) (m11 M) (m12 M) (m20 M) (m21 M) (m22 M) (m30 M) (m31 M) (m32 M))
     (det3 (m00 M) (m01 M) (m02 M) (m20 M) (m21 M) (m22 M) (m30 M) (m31 M) (m32 M))
     (- det3 (m00 M) (m01 M) (m02 M) (m10 M) (m11 M) (m12 M) (m30 M) (m31 M) (m32 M))
     (det3 (m00 M) (m01 M) (m02 M) (m10 M) (m11 M) (m12 M) (m20 M) (m21 M) (m22 M))"

text \<open>
  \<^verbatim>\<open>np.linalg.inv\<close> on one matrix: the inverse, or \<^verbatim>\<open>LinAlgError\<close> for a
  singular matrix. The inverse is written by Cramer's rule (adjugate over determinant).
\<close>

definition linalg_inv :: "mat4 \<Rightarrow> error + mat4" where
  "linalg_inv M = (if det M = 0 then Inl LinAlgError else Inr (scale (1 / det M) (adjugate M)))"

section \<open>Arrays\<close>

text \<open>
  A numpy array is its shape and its elements in row-major order. An element is whatever
  stands behind the axes the code indexes: a matrix for \<^verbatim>\<open>poses\<close>, a point for
  \<^verbatim>\<open>points\<close>, a boolean for a mask.
\<close>

record 'a ndarray =
  shape :: "nat list"
  data :: "'a list"

definition wf_array :: "('a, 'z) ndarray_scheme \<Rightarrow> bool" where
  "wf_array a = (length (data a) = prod_list (shape a))"

text \<open>The multi-indices of a shape, in row-major order, and the offset of one of them.\<close>

fun indices :: "nat list \<Rightarrow> nat list list" where
  "indices [] = [[]]"
| "indices (n # ns) = concat (map (\<lambda>i. map ((#) i) (indices ns)) [0..<n])"

fun ravel :: "nat list \<Rightarrow> nat list \<Rightarrow> nat" where
  "ravel (n # ns) (i # idx) = i * prod_list ns + ravel ns idx"
| "ravel _ _ = 0"

fun valid_index :: "nat list \<Rightarrow> nat list \<Rightarrow> bool" where
  "valid_index [] [] = True"
| "valid_index (n # ns) (i # idx) = (i < n \<and> valid_index ns idx)"
| "valid_index _ _ = False"

definition item :: "'a ndarray \<Rightarrow> nat list \<Rightarrow> 'a" where
  "item a idx = data a ! ravel (shape a) idx"

definition tabulate :: "nat list \<Rightarrow> (nat list \<Rightarrow> 'a) \<Rightarrow> 'a ndarray" where
  "tabulate s f = \<lparr>shape = s, data = map f (indices s)\<rparr>"

text \<open>Reading one field of every record (\<^verbatim>\<open>table.poses\<close>), or any elementwise function.\<close>

definition map_array :: "('a \<Rightarrow> 'b) \<Rightarrow> 'a ndarray \<Rightarrow> 'b ndarray" where
  "map_array f a = \<lparr>shape = shape a, data = map f (data a)\<rparr>"

subsection \<open>Selection along an axis\<close>

text \<open>
  \<^verbatim>\<open>table._index_select(i, axis=axis)\<close>, and \<^verbatim>\<open>table._index[i]\<close> for axis 0: the
  sub-array at position \<open>i\<close> of the axis, which loses that axis.
  \<^verbatim>\<open>table._sequence(axis)\<close> lists them for every position of the axis.
\<close>

definition index_select :: "'a ndarray \<Rightarrow> nat \<Rightarrow> nat \<Rightarrow> error + 'a ndarray" where
  "index_select a i axis =
     (if axis < length (shape a) \<and> i < shape a ! axis
      then Inr (tabulate (take axis (shape a) @ drop (Suc axis) (shape a))
                  (\<lambda>idx. item a (take axis idx @ i # drop axis idx)))
      else Inl IndexError)"

definition sequence :: "'a ndarray \<Rightarrow> nat \<Rightarrow> error + 'a ndarray list" where
  "sequence a axis =
     (if axis < length (shape a)
      then mapM (\<lambda>i. index_select a i axis) [0..<shape a ! axis]
      else Inl IndexError)"

subsection \<open>Broadcasting\<close>

text \<open>
  numpy's rule: the shapes are aligned at their last axis, a missing axis counts as 1, and
  two sizes go together when they are equal or one of them is 1. \<open>bdims\<close> works on the
  reversed shapes. \<open>bcast_index s idx\<close> is the index into an array of shape \<open>s\<close> that
  the index \<open>idx\<close> of the broadcast result reads.
\<close>

fun bdims :: "nat list \<Rightarrow> nat list \<Rightarrow> nat list option" where
  "bdims [] ys = Some ys"
| "bdims (x # xs) [] = Some (x # xs)"
| "bdims (x # xs) (y # ys) =
     (if x = y \<or> y = 1 then map_option ((#) x) (bdims xs ys)
      else if x = 1 then map_option ((#) y) (bdims xs ys)
      else None)"

definition broadcast_shapes :: "nat list \<Rightarrow> nat list \<Rightarrow> error + nat list" where
  "broadcast_shapes s1 s2 =
     (case bdims (rev s1) (rev s2) of None \<Rightarrow> Inl ValueError | Some r \<Rightarrow> Inr (rev r))"

definition bcast_index :: "nat list \<Rightarrow> nat list \<Rightarrow> nat list" where
  "bcast_index s idx =
     map2 (\<lambda>n i. if n = 1 then 0 else i) s (drop (length idx - length s) idx)"

definition broadcast2 ::
  "('a \<Rightarrow> 'b \<Rightarrow> 'c) \<Rightarrow> 'a ndarray \<Rightarrow> 'b ndarray \<Rightarrow> error + 'c ndarray" where
  "broadcast2 f a b =
     (case broadcast_shapes (shape a) (shape b) of
        Inl e \<Rightarrow> Inl e
      | Inr s \<Rightarrow>
          Inr (tabulate s (\<lambda>idx. f (item a (bcast_index (shape a) idx))
                                   (item b (bcast_index (shape b) idx)))))"

text \<open>\<^verbatim>\<open>np.broadcast_to(a, shape)\<close>: only the array is stretched, never the shape.\<close>

definition np_broadcast_to :: "'a ndarray \<Rightarrow> nat list \<Rightarrow> error + 'a ndarray" where
  "np_broadcast_to a s =
     (if length (shape a) \<le> length s
         \<and> list_all (\<lambda>(n, m). n = m \<or> n = 1)
              (zip (shape a) (drop (length s - length (shape a)) s))
      then Inr (tabulate s (\<lambda>idx. item a (bcast_index (shape a) idx)))
      else Inl ValueError)"

text \<open>\<^verbatim>\<open>np.expand_dims(a, axis=dims)\<close>: a new axis of size 1 at position \<open>dims\<close>.\<close>

definition expand_dims :: "'a ndarray \<Rightarrow> nat \<Rightarrow> error + 'a ndarray" where
  "expand_dims a dims =
     (if dims \<le> length (shape a)
      then Inr \<lparr>shape = take dims (shape a) @ 1 # drop dims (shape a), data = data a\<rparr>
      else Inl AxisError)"

subsection \<open>Masks\<close>

text \<open>
  \<^verbatim>\<open>np.nonzero(mask)\<close>: the indices at which the mask is true, in row-major order.
  \<^verbatim>\<open>a[valid]\<close> with that tuple of index arrays: the elements at those indices, as a
  one-dimensional array; an index outside the array raises. \<^verbatim>\<open>valid[0]\<close> is the first
  component of every index.
\<close>

definition nonzero :: "bool ndarray \<Rightarrow> nat list list" where
  "nonzero m = map fst (filter snd (zip (indices (shape m)) (data m)))"

definition take_indices :: "'a ndarray \<Rightarrow> nat list list \<Rightarrow> error + 'a ndarray" where
  "take_indices a idxs =
     (if list_all (valid_index (shape a)) idxs
      then Inr \<lparr>shape = [length idxs], data = map (item a) idxs\<rparr>
      else Inl IndexError)"

definition first_axis :: "nat list list \<Rightarrow> nat list" where
  "first_axis idxs = map (\<lambda>idx. case idx of [] \<Rightarrow> 0 | i # _ \<Rightarrow> i) idxs"

text \<open>
  \<^verbatim>\<open>a[~mask] = v\<close> and \<^verbatim>\<open>a[mask]\<close> with a boolean mask over all axes of \<open>a\<close>:
  the mask must have the shape of \<open>a\<close>.
\<close>

definition assign_where_not :: "'a ndarray \<Rightarrow> bool ndarray \<Rightarrow> 'a \<Rightarrow> error + 'a ndarray" where
  "assign_where_not a m v =
     (if shape m = shape a
      then Inr \<lparr>shape = shape a, data = map2 (\<lambda>x keep. if keep then x else v) (data a) (data m)\<rparr>
      else Inl IndexError)"

definition boolean_index :: "'a ndarray \<Rightarrow> bool ndarray \<Rightarrow> error + 'a list" where
  "boolean_index a m =
     (if shape m = shape a
      then Inr (map fst (filter snd (zip (data a) (data m))))
      else Inl IndexError)"

section \<open>Tables\<close>

text \<open>
  A \<^verbatim>\<open>Table\<close> of the structs library holds one array per field, all of them with the
  table's leading shape (\<^verbatim>\<open>_shape\<close>, \<^verbatim>\<open>_prefix\<close>). It is modelled as one array of
  records over that shape, so that the fields of a table are aligned by construction;
  \<^verbatim>\<open>table.field\<close> is \<open>map_array field table\<close>. A single struct is a record.
  A struct built without \<^verbatim>\<open>num_points\<close> has \<open>num_points = None\<close>.
\<close>

record pose =
  poses :: mat4
  valid_poses :: bool
  num_points :: "int option"

record point =
  points :: "real list"
  valid_points :: bool

text \<open>
  \<^verbatim>\<open>
  invalid_pose = struct(poses=np.eye(4), num_points=0, valid_poses=False)

  def valid_pose(t):
    return struct(poses=t, valid_poses=True)
  \<close>
\<close>

definition invalid_pose :: pose where
  "invalid_pose = \<lparr>poses = eye4, valid_poses = False, num_points = Some 0\<rparr>"

definition valid_pose :: "mat4 \<Rightarrow> pose" where
  "valid_pose t = \<lparr>poses = t, valid_poses = True, num_points = None\<rparr>"

text \<open>
  \<^verbatim>\<open>Table.create(poses=..., valid_poses=...)\<close>. The two arrays have one leading shape
  wherever this file calls it; what the library does otherwise is not known, and the model
  raises there.
\<close>

definition table_create :: "mat4 ndarray \<Rightarrow> bool ndarray \<Rightarrow> error + pose ndarray" where
  "table_create ps vs =
     (if shape ps = shape vs
      then Inr \<lparr>shape = shape ps,
                data = map2 (\<lambda>p v. \<lparr>poses = p, valid_poses = v, num_points = None\<rparr>)
                         (data ps) (data vs)\<rparr>
      else Inl AssertionError)"

text \<open>
  \<^verbatim>\<open>Table.stack(structs)\<close> transposes the structs into one list per field
  (\<^verbatim>\<open>transpose_structs\<close>) and stacks each list into an array. The field names are
  those of the first struct, and each of them is read from every struct: an empty list
  has no first struct; a struct without a field of the first one raises; a field that the
  first struct does not have is dropped from the others. The structs stacked here are
  poses, which all have \<^verbatim>\<open>poses\<close> and \<^verbatim>\<open>valid_poses\<close>: the field that decides
  is \<^verbatim>\<open>num_points\<close>, which \<open>invalid_pose\<close> has and \<open>valid_pose t\<close> has not.
\<close>

definition table_stack :: "pose list \<Rightarrow> error + pose ndarray" where
  "table_stack structs =
     (case structs of
        [] \<Rightarrow> Inl IndexError
      | elem # _ \<Rightarrow>
          if num_points elem = None
          then Inr \<lparr>shape = [length structs],
                    data = map (\<lambda>d. d\<lparr>num_points := None\<rparr>) structs\<rparr>
          else if list_all (\<lambda>d. num_points d \<noteq> None) structs
          then Inr \<lparr>shape = [length structs], data = structs\<rparr>
          else Inl KeyError)"

subsection \<open>pattern_overlaps\<close>

text \<open>
  \<^verbatim>\<open>
  def pattern_overlaps(table, axis=0):
    n = table._prefix[axis]
    overlaps = np.zeros([n, n])
    for i in range(n):
      for j in range(i + 1, n):
        row_i, row_j = table._index_select(
            i, axis=axis), table._index_select(j, axis=axis)
        has_pose = (row_i.valid_poses & row_j.valid_poses)
        weight = np.min([row_i.num_points, row_j.num_points], axis=0)
        overlaps[i, j] = overlaps[j, i] = np.sum(
            has_pose.astype(np.float32) * weight)
    return overlaps
  \<close>
  The overlap matrix is a list of \<open>n\<close> rows of \<open>n\<close> numbers. Its entries are sums of
  integers, which the floating-point numbers of numpy hold exactly below \<open>2^53\<close>; they are
  integers here. The axis is a natural number (the code passes 0 and 1).
\<close>

definition field_num_points :: "pose ndarray \<Rightarrow> error + int ndarray" where
  "field_num_points t =
     (case those (map num_points (data t)) of
        None \<Rightarrow> Inl AttributeError
      | Some ns \<Rightarrow> Inr \<lparr>shape = shape t, data = ns\<rparr>)"

definition np_min2 :: "int ndarray \<Rightarrow> int ndarray \<Rightarrow> error + int ndarray" where
  "np_min2 a b =
     (if shape a = shape b then Inr \<lparr>shape = shape a, data = map2 min (data a) (data b)\<rparr>
      else Inl ValueError)"

definition overlap_pair :: "pose ndarray \<Rightarrow> nat \<Rightarrow> nat \<Rightarrow> nat \<Rightarrow> error + int" where
  "overlap_pair table axis i j =
     (case index_select table i axis of Inl e \<Rightarrow> Inl e | Inr row_i \<Rightarrow>
      case index_select table j axis of Inl e \<Rightarrow> Inl e | Inr row_j \<Rightarrow>
      case broadcast2 (\<and>) (map_array valid_poses row_i) (map_array valid_poses row_j) of
        Inl e \<Rightarrow> Inl e | Inr has_pose \<Rightarrow>
      case field_num_points row_i of Inl e \<Rightarrow> Inl e | Inr np_i \<Rightarrow>
      case field_num_points row_j of Inl e \<Rightarrow> Inl e | Inr np_j \<Rightarrow>
      case np_min2 np_i np_j of Inl e \<Rightarrow> Inl e | Inr weight \<Rightarrow>
      case broadcast2 (\<lambda>h w. (if h then 1 else 0) * w) has_pose weight of
        Inl e \<Rightarrow> Inl e | Inr weighted \<Rightarrow>
      Inr (sum_list (data weighted)))"

definition set2 :: "'a list list \<Rightarrow> nat \<Rightarrow> nat \<Rightarrow> 'a \<Rightarrow> 'a list list" where
  "set2 m i j v = m[i := (m ! i)[j := v]]"

definition square :: "nat \<Rightarrow> 'a list list \<Rightarrow> bool" where
  "square n m = (length m = n \<and> (\<forall>row\<in>set m. length row = n))"

fun overlaps_inner ::
  "pose ndarray \<Rightarrow> nat \<Rightarrow> nat \<Rightarrow> nat list \<Rightarrow> int list list \<Rightarrow> error + int list list" where
  "overlaps_inner table axis i [] overlaps = Inr overlaps"
| "overlaps_inner table axis i (j # js) overlaps =
     (case overlap_pair table axis i j of
        Inl e \<Rightarrow> Inl e
      | Inr v \<Rightarrow> overlaps_inner table axis i js (set2 (set2 overlaps i j v) j i v))"

fun overlaps_outer ::
  "pose ndarray \<Rightarrow> nat \<Rightarrow> nat \<Rightarrow> nat list \<Rightarrow> int list list \<Rightarrow> error + int list list" where
  "overlaps_outer table axis n [] overlaps = Inr overlaps"
| "overlaps_outer table axis n (i # rest) overlaps =
     (case overlaps_inner table axis i [Suc i..<n] overlaps of
        Inl e \<Rightarrow> Inl e
      | Inr overlaps' \<Rightarrow> overlaps_outer table axis n rest overlaps')"

definition pattern_overlaps :: "pose ndarray \<Rightarrow> nat \<Rightarrow> error + int list list" where
  "pattern_overlaps table axis =
     (if axis < length (shape table)
      then (let n = shape table ! axis
            in overlaps_outer table axis n [0..<n] (replicate n (replicate n 0)))
      else Inl IndexError)"

text \<open>
  The overlap value in the words of the specification: the sum, over the positions of the
  remaining axes (the frames, for a camera by frame table and axis 0), of "both valid"
  times the smaller of the two point counts. \<open>row_item table axis i idx\<close> is the record of
  node \<open>i\<close> at position \<open>idx\<close> of the remaining axes.
\<close>

definition row_item :: "'a ndarray \<Rightarrow> nat \<Rightarrow> nat \<Rightarrow> nat list \<Rightarrow> 'a" where
  "row_item table axis i idx = item table (take axis idx @ i # drop axis idx)"

definition row_shape :: "'a ndarray \<Rightarrow> nat \<Rightarrow> nat list" where
  "row_shape table axis = take axis (shape table) @ drop (Suc axis) (shape table)"

definition points_of :: "pose \<Rightarrow> int" where
  "points_of r = (case num_points r of None \<Rightarrow> 0 | Some k \<Rightarrow> k)"

definition overlap_sum :: "pose ndarray \<Rightarrow> nat \<Rightarrow> nat \<Rightarrow> nat \<Rightarrow> int" where
  "overlap_sum table axis i j =
     (\<Sum>idx\<leftarrow>indices (row_shape table axis).
        (if valid_poses (row_item table axis i idx) \<and> valid_poses (row_item table axis j idx)
         then 1 else 0)
        * min (points_of (row_item table axis i idx)) (points_of (row_item table axis j idx)))"

subsection \<open>The pose chainer\<close>

text \<open>
  \<^verbatim>\<open>
  def estimate_transform(table, i, j, axis=0):
    poses_i = table._index_select(i, axis=axis).poses
    poses_j = table._index_select(j, axis=axis).poses
    return matrix.align_transforms_robust(poses_i, poses_j)[0]
  \<close>
  \<^verbatim>\<open>matrix.align_transforms_robust\<close> is not part of this file: it is the parameter
  \<open>align\<close>, which returns the transform and the inliers.
\<close>

definition estimate_transform ::
  "(mat4 ndarray \<Rightarrow> mat4 ndarray \<Rightarrow> mat4 \<times> 'x) \<Rightarrow> pose ndarray \<Rightarrow> nat \<Rightarrow> nat \<Rightarrow> nat
   \<Rightarrow> error + mat4" where
  "estimate_transform align table i j axis =
     (case index_select table i axis of Inl e \<Rightarrow> Inl e | Inr row_i \<Rightarrow>
      case index_select table j axis of Inl e \<Rightarrow> Inl e | Inr row_j \<Rightarrow>
      Inr (fst (align (map_array poses row_i) (map_array poses row_j))))"

text \<open>
  \<^verbatim>\<open>
  def fill_poses(pose_dict, n):
    valid_ids = sorted(pose_dict)
    pose_table = np.array([pose_dict[k] for k in valid_ids])
    values, mask = fill_sparse_tile(n, pose_table, valid_ids, np.eye(4))
    return Table.create(poses=values, valid_poses=mask)
  \<close>
  The dictionary is an association list with one entry per key
  (\<open>AList.update\<close> is Python's \<^verbatim>\<open>d[k] = v\<close>). An empty dictionary gives an array of
  shape \<^verbatim>\<open>(0,)\<close>, on which the assertion of \<^verbatim>\<open>fill_sparse_tile\<close> fails.
\<close>

definition dict_get :: "('k \<times> 'v) list \<Rightarrow> 'k \<Rightarrow> error + 'v" where
  "dict_get d k = (case map_of d k of None \<Rightarrow> Inl KeyError | Some v \<Rightarrow> Inr v)"

definition fill_poses :: "(nat \<times> mat4) list \<Rightarrow> nat \<Rightarrow> error + pose ndarray" where
  "fill_poses pose_dict n =
     (let valid_ids = sort (map fst pose_dict) in
      case mapM (dict_get pose_dict) valid_ids of Inl e \<Rightarrow> Inl e | Inr pose_table \<Rightarrow>
      if pose_table = [] then Inl AssertionError
      else case fill_sparse_tile n pose_table (map int valid_ids) eye4 of
        Inl e \<Rightarrow> Inl e
      | Inr (vals, msk) \<Rightarrow> table_create \<lparr>shape = [n], data = vals\<rparr> \<lparr>shape = [n], data = msk\<rparr>)"

text \<open>
  \<^verbatim>\<open>
  def estimate_relative_poses(table, axis=0, hop_penalty=0.9):
    n = table._shape[axis]
    overlaps = pattern_overlaps(table, axis=axis)
    master, pairs = graph.select_pairs(overlaps, hop_penalty)
    pose_dict = {master: np.eye(4)}
    for parent, child in pairs:
      t = estimate_transform(table, parent, child, axis=axis)
      pose_dict[child] = t @ pose_dict[parent]
    return fill_poses(pose_dict, n), master
  \<close>
  \<^verbatim>\<open>graph.select_pairs\<close> is not part of this file: it is the parameter
  \<open>select_pairs\<close>, which returns the master node and the edges. Nodes are natural numbers.
\<close>

fun chain_poses ::
  "(mat4 ndarray \<Rightarrow> mat4 ndarray \<Rightarrow> mat4 \<times> 'x) \<Rightarrow> pose ndarray \<Rightarrow> nat \<Rightarrow> (nat \<times> nat) list
   \<Rightarrow> (nat \<times> mat4) list \<Rightarrow> error + (nat \<times> mat4) list" where
  "chain_poses align table axis [] pose_dict = Inr pose_dict"
| "chain_poses align table axis ((parent, child) # pairs) pose_dict =
     (case estimate_transform align table parent child axis of Inl e \<Rightarrow> Inl e | Inr t \<Rightarrow>
      case dict_get pose_dict parent of Inl e \<Rightarrow> Inl e | Inr p \<Rightarrow>
      chain_poses align table axis pairs (AList.update child (matmul t p) pose_dict))"

definition estimate_relative_poses ::
  "(int list list \<Rightarrow> real \<Rightarrow> nat \<times> (nat \<times> nat) list)
   \<Rightarrow> (mat4 ndarray \<Rightarrow> mat4 ndarray \<Rightarrow> mat4 \<times> 'x)
   \<Rightarrow> pose ndarray \<Rightarrow> nat \<Rightarrow> real \<Rightarrow> error + (pose ndarray \<times> nat)" where
  "estimate_relative_poses select_pairs align table axis hop_penalty =
     (if axis < length (shape table)
      then (let n = shape table ! axis in
            case pattern_overlaps table axis of Inl e \<Rightarrow> Inl e | Inr overlaps \<Rightarrow>
            case select_pairs overlaps hop_penalty of (master, pairs) \<Rightarrow>
            case chain_poses align table axis pairs [(master, eye4)] of
              Inl e \<Rightarrow> Inl e | Inr pose_dict \<Rightarrow>
            case fill_poses pose_dict n of Inl e \<Rightarrow> Inl e | Inr filled \<Rightarrow>
            Inr (filled, master))
      else Inl IndexError)"

text \<open>
  What the specification says of the edges \<^verbatim>\<open>select_pairs\<close> returns: they come in
  parent-before-child order from the master, the master has no incoming edge, and every
  other node of the tree has exactly one parent. \<open>seen\<close> lists the nodes that have a pose.
\<close>

fun tree_order :: "nat list \<Rightarrow> (nat \<times> nat) list \<Rightarrow> bool" where
  "tree_order seen [] = True"
| "tree_order seen ((parent, child) # pairs) =
     (parent \<in> set seen \<and> child \<notin> set seen \<and> tree_order (seen @ [child]) pairs)"

text \<open>
  The samples of an edge in the words of the specification: the poses of the two nodes at
  the positions of the remaining axes (the frames) where both have a valid pose.
\<close>

definition shared_valid_poses ::
  "pose ndarray \<Rightarrow> nat \<Rightarrow> nat \<Rightarrow> nat \<Rightarrow> mat4 list \<times> mat4 list" where
  "shared_valid_poses table axis i j =
     (let frames = filter (\<lambda>idx. valid_poses (row_item table axis i idx)
                                 \<and> valid_poses (row_item table axis j idx))
                     (indices (row_shape table axis))
      in (map (\<lambda>idx. poses (row_item table axis i idx)) frames,
          map (\<lambda>idx. poses (row_item table axis j idx)) frames))"

subsection \<open>Reprojection error\<close>

text \<open>
  \<^verbatim>\<open>
  def valid_reprojection_error(points1, points2):
    errors, mask = reprojection_error(points1, points2)
    return errors[mask]

  def reprojection_error(points1, points2):
    mask = points1.valid_points & points2.valid_points
    error = np.linalg.norm(points1.points - points2.points, axis=-1)
    error[~mask] = 0
    return error, mask
  \<close>
  A point is the list of its coordinates (the last axis of \<^verbatim>\<open>points\<close>); the last axes
  of the two tables broadcast like every other axis.
\<close>

definition vec_sub :: "real list \<Rightarrow> real list \<Rightarrow> error + real list" where
  "vec_sub u v =
     (if length u = length v then Inr (map2 (-) u v)
      else if length v = 1 then Inr (map (\<lambda>x. x - hd v) u)
      else if length u = 1 then Inr (map (\<lambda>y. hd u - y) v)
      else Inl ValueError)"

definition norm2 :: "real list \<Rightarrow> real" where
  "norm2 v = sqrt (sum_list (map (\<lambda>x. \<bar>x\<bar> ^ 2) v))"

text \<open>The Euclidean distance of two points, in the words of the specification.\<close>

definition euclidean_distance :: "real list \<Rightarrow> real list \<Rightarrow> real" where
  "euclidean_distance u v = sqrt (\<Sum>(x, y)\<leftarrow>zip u v. (x - y) ^ 2)"

definition broadcast2E ::
  "('a \<Rightarrow> 'b \<Rightarrow> error + 'c) \<Rightarrow> 'a ndarray \<Rightarrow> 'b ndarray \<Rightarrow> error + 'c ndarray" where
  "broadcast2E f a b =
     (case broadcast2 f a b of
        Inl e \<Rightarrow> Inl e
      | Inr c \<Rightarrow>
          (case mapM id (data c) of
             Inl e \<Rightarrow> Inl e
           | Inr d \<Rightarrow> Inr \<lparr>shape = shape c, data = d\<rparr>))"

definition reprojection_error ::
  "point ndarray \<Rightarrow> point ndarray \<Rightarrow> error + (real ndarray \<times> bool ndarray)" where
  "reprojection_error pts1 pts2 =
     (case broadcast2 (\<and>) (map_array valid_points pts1) (map_array valid_points pts2) of
        Inl e \<Rightarrow> Inl e | Inr msk \<Rightarrow>
      case broadcast2E vec_sub (map_array points pts1) (map_array points pts2) of
        Inl e \<Rightarrow> Inl e | Inr diff \<Rightarrow>
      case assign_where_not (map_array norm2 diff) msk 0 of
        Inl e \<Rightarrow> Inl e | Inr err \<Rightarrow>
      Inr (err, msk))"

definition valid_reprojection_error :: "point ndarray \<Rightarrow> point ndarray \<Rightarrow> error + real list" where
  "valid_reprojection_error pts1 pts2 =
     (case reprojection_error pts1 pts2 of
        Inl e \<Rightarrow> Inl e
      | Inr (errors, msk) \<Rightarrow> boolean_index errors msk)"

subsection \<open>Inverse and products of tables\<close>

text \<open>
  \<^verbatim>\<open>
  def inverse(table):
    return table._extend(poses=np.linalg.inv(table.poses))
  \<close>
  \<^verbatim>\<open>np.linalg.inv\<close> inverts every matrix of the array and raises at a singular one.
  The code applies \<^verbatim>\<open>inverse\<close> to tables and to single structs: \<open>inverse_table\<close>
  and \<open>inverse_struct\<close>. A record may carry any further fields.
\<close>

definition inverse_struct :: "'z pose_scheme \<Rightarrow> error + 'z pose_scheme" where
  "inverse_struct r =
     (case linalg_inv (poses r) of Inl e \<Rightarrow> Inl e | Inr m \<Rightarrow> Inr (r\<lparr>poses := m\<rparr>))"

definition inverse_table :: "'z pose_scheme ndarray \<Rightarrow> error + 'z pose_scheme ndarray" where
  "inverse_table table =
     (case mapM linalg_inv (map poses (data table)) of
        Inl e \<Rightarrow> Inl e
      | Inr ms \<Rightarrow> Inr (table\<lparr>data := map2 (\<lambda>r m. r\<lparr>poses := m\<rparr>) (data table) ms\<rparr>))"

text \<open>
  \<^verbatim>\<open>
  def can_broadcast(shape1, shape2):
    return  len(shape1) == len(shape2) and all(
        [n1 == n2 or n1 == 1 or n2 == 1 for n1, n2 in zip(shape1, shape2)])

  def broadcast_to(table1, table2):
    assert can_broadcast(table1._shape, table2._shape), ...
    return table1._zipWith(lambda t1, t2: np.broadcast_to(t1, t2.shape), table2)

  def multiply_tables(table1, table2):
    assert can_broadcast(table1._shape, table2._shape), ...
    return Table.create(
      poses=table1.poses @ table2.poses,
      valid_poses= table1.valid_poses & table2.valid_poses
    )

  def expand(table, dims):
    f = partial(np.expand_dims, axis=dims)
    return table._map(f)
  \<close>
\<close>

definition can_broadcast :: "nat list \<Rightarrow> nat list \<Rightarrow> bool" where
  "can_broadcast shape1 shape2 =
     (length shape1 = length shape2
      \<and> list_all (\<lambda>(n1, n2). n1 = n2 \<or> n1 = 1 \<or> n2 = 1) (zip shape1 shape2))"

text \<open>
  The shape of the result for two shapes of one rank that broadcast: the size of each axis
  is the one that is not 1.
\<close>

definition broadcast_result_shape :: "nat list \<Rightarrow> nat list \<Rightarrow> nat list" where
  "broadcast_result_shape shape1 shape2 = map2 (\<lambda>n1 n2. if n1 = 1 then n2 else n1) shape1 shape2"

definition broadcast_to :: "'a ndarray \<Rightarrow> 'b ndarray \<Rightarrow> error + 'a ndarray" where
  "broadcast_to table1 table2 =
     (if \<not> can_broadcast (shape table1) (shape table2) then Inl AssertionError
      else np_broadcast_to table1 (shape table2))"

definition multiply_tables ::
  "'y pose_scheme ndarray \<Rightarrow> 'z pose_scheme ndarray \<Rightarrow> error + pose ndarray" where
  "multiply_tables table1 table2 =
     (if \<not> can_broadcast (shape table1) (shape table2) then Inl AssertionError
      else
        case broadcast2 matmul (map_array poses table1) (map_array poses table2) of
          Inl e \<Rightarrow> Inl e | Inr ps \<Rightarrow>
        case broadcast2 (\<and>) (map_array valid_poses table1) (map_array valid_poses table2) of
          Inl e \<Rightarrow> Inl e | Inr vs \<Rightarrow>
        table_create ps vs)"

definition expand :: "'a ndarray \<Rightarrow> nat \<Rightarrow> error + 'a ndarray" where
  "expand table dims = expand_dims table dims"

subsection \<open>Relative poses and the rig\<close>

text \<open>
  \<^verbatim>\<open>
  def common_entries(row1, row2, mask_key):
    valid = np.nonzero(row1[mask_key] & row2[mask_key])
    return row1._index[valid], row2._index[valid], valid[0]

  def relative_between(table1, table2):
    common1, common2, valid = common_entries(table1, table2, mask_key='valid_poses')
    if valid.size == 0:
      return invalid_pose
    else:
      t, _ = matrix.align_transforms_robust(common1.poses, common2.poses)
      return valid_pose(t)

  def relative_between_inv(table1, table2):
    return inverse(relative_between(inverse(table1), inverse(table2)))

  def relative_between_n(table1, table2, axis=0, inv=False):
    f = relative_between_inv if inv else relative_between
    relative_poses = [f(poses1, poses2) for poses1, poses2
      in zip(table1._sequence(axis), table2._sequence(axis))]
    return Table.stack(relative_poses)
  \<close>
  The mask key is the function that reads the mask field.
\<close>

definition common_entries ::
  "'a ndarray \<Rightarrow> 'a ndarray \<Rightarrow> ('a \<Rightarrow> bool) \<Rightarrow> error + ('a ndarray \<times> 'a ndarray \<times> nat list)" where
  "common_entries row1 row2 mask_key =
     (case broadcast2 (\<and>) (map_array mask_key row1) (map_array mask_key row2) of
        Inl e \<Rightarrow> Inl e | Inr both \<Rightarrow>
      (let valid = nonzero both in
       case take_indices row1 valid of Inl e \<Rightarrow> Inl e | Inr common1 \<Rightarrow>
       case take_indices row2 valid of Inl e \<Rightarrow> Inl e | Inr common2 \<Rightarrow>
       Inr (common1, common2, first_axis valid)))"

text \<open>
  The entries valid in both tables (the masked intersection of the specification), for
  two tables of one shape: their indices in row-major order.
\<close>

definition shared_entries :: "pose ndarray \<Rightarrow> pose ndarray \<Rightarrow> nat list list" where
  "shared_entries table1 table2 =
     filter (\<lambda>idx. valid_poses (item table1 idx) \<and> valid_poses (item table2 idx))
       (indices (shape table1))"

definition relative_between ::
  "(mat4 ndarray \<Rightarrow> mat4 ndarray \<Rightarrow> mat4 \<times> 'x) \<Rightarrow> pose ndarray \<Rightarrow> pose ndarray \<Rightarrow> error + pose" where
  "relative_between align table1 table2 =
     (case common_entries table1 table2 valid_poses of
        Inl e \<Rightarrow> Inl e
      | Inr (common1, common2, valid) \<Rightarrow>
          if length valid = 0 then Inr invalid_pose
          else Inr (valid_pose (fst (align (map_array poses common1) (map_array poses common2)))))"

definition relative_between_inv ::
  "(mat4 ndarray \<Rightarrow> mat4 ndarray \<Rightarrow> mat4 \<times> 'x) \<Rightarrow> pose ndarray \<Rightarrow> pose ndarray \<Rightarrow> error + pose" where
  "relative_between_inv align table1 table2 =
     (case inverse_table table1 of Inl e \<Rightarrow> Inl e | Inr inv1 \<Rightarrow>
      case inverse_table table2 of Inl e \<Rightarrow> Inl e | Inr inv2 \<Rightarrow>
      case relative_between align inv1 inv2 of Inl e \<Rightarrow> Inl e | Inr r \<Rightarrow>
      inverse_struct r)"

definition relative_between_n ::
  "(mat4 ndarray \<Rightarrow> mat4 ndarray \<Rightarrow> mat4 \<times> 'x) \<Rightarrow> pose ndarray \<Rightarrow> pose ndarray \<Rightarrow> nat \<Rightarrow> bool
   \<Rightarrow> error + pose ndarray" where
  "relative_between_n align table1 table2 axis use_inv =
     (let f = (if use_inv then relative_between_inv align else relative_between align) in
      case sequence table1 axis of Inl e \<Rightarrow> Inl e | Inr seq1 \<Rightarrow>
      case sequence table2 axis of Inl e \<Rightarrow> Inl e | Inr seq2 \<Rightarrow>
      case mapM (\<lambda>(poses1, poses2). f poses1 poses2) (zip seq1 seq2) of
        Inl e \<Rightarrow> Inl e | Inr relative_poses \<Rightarrow>
      table_stack relative_poses)"

text \<open>
  \<^verbatim>\<open>
  def initialise_poses(pose_table):
    camera, _ = estimate_relative_poses(pose_table, axis=0)
    expanded = broadcast_to(expand(camera, 1), pose_table)
    rig = relative_between_n(expanded, pose_table, axis=1, inv=True)
    return struct(rig = rig, camera = camera)
  \<close>
\<close>

record estimates =
  rig :: "pose ndarray"
  camera :: "pose ndarray"

definition initialise_poses ::
  "(int list list \<Rightarrow> real \<Rightarrow> nat \<times> (nat \<times> nat) list)
   \<Rightarrow> (mat4 ndarray \<Rightarrow> mat4 ndarray \<Rightarrow> mat4 \<times> 'x)
   \<Rightarrow> pose ndarray \<Rightarrow> error + estimates" where
  "initialise_poses select_pairs align pose_table =
     (case estimate_relative_poses select_pairs align pose_table 0 (9 / 10) of
        Inl e \<Rightarrow> Inl e | Inr (cam, _) \<Rightarrow>
      case expand cam 1 of Inl e \<Rightarrow> Inl e | Inr cam1 \<Rightarrow>
      case broadcast_to cam1 pose_table of Inl e \<Rightarrow> Inl e | Inr expanded \<Rightarrow>
      case relative_between_n align expanded pose_table 1 True of
        Inl e \<Rightarrow> Inl e | Inr r \<Rightarrow>
      Inr \<lparr>rig = r, camera = cam\<rparr>)"

section \<open>Example inputs\<close>

text \<open>A pose record as \<^verbatim>\<open>extract_pose\<close> builds it, with the identity as its transform.\<close>

definition observed :: "bool \<Rightarrow> int \<Rightarrow> pose" where
  "observed v k = \<lparr>poses = eye4, valid_poses = v, num_points = Some k\<rparr>"

text \<open>Two cameras by two frames; camera 1 does not see the board in frame 1.\<close>

definition example_pose_table :: "pose ndarray" where
  "example_pose_table =
     \<lparr>shape = [2, 2],
      data = [observed True 5, observed True 3, observed True 4, observed False 0]\<rparr>"

text \<open>
  A stand-in for \<^verbatim>\<open>graph.select_pairs\<close> that makes node 0 the master of the single
  edge from 0 to 1, and one for \<^verbatim>\<open>matrix.align_transforms_robust\<close> that always
  answers with the scaling by 2 and no inliers.
\<close>

definition example_select_pairs :: "int list list \<Rightarrow> real \<Rightarrow> nat \<times> (nat \<times> nat) list" where
  "example_select_pairs overlaps hop_penalty = (0, [(0, 1)])"

definition example_align :: "mat4 ndarray \<Rightarrow> mat4 ndarray \<Rightarrow> mat4 \<times> nat list" where
  "example_align poses_i poses_j = (scale 2 eye4, [])"

text \<open>
  Two cameras by two frames with four different transforms; camera 1 has no pose in
  frame 1, where the table holds \<open>invalid_pose\<close>.
\<close>

definition example_mixed_table :: "pose ndarray" where
  "example_mixed_table =
     \<lparr>shape = [2, 2],
      data = [\<lparr>poses = scale 2 eye4, valid_poses = True, num_points = Some 5\<rparr>,
              \<lparr>poses = scale 3 eye4, valid_poses = True, num_points = Some 3\<rparr>,
              \<lparr>poses = scale 5 eye4, valid_poses = True, num_points = Some 4\<rparr>,
              invalid_pose]\<rparr>"

text \<open>
  The tables \<^verbatim>\<open>expand_poses\<close> multiplies, for two cameras and two frames: camera
  extrinsics of shape \<^verbatim>\<open>(2, 1)\<close>, of which the second is invalid, and rig poses of
  shape \<^verbatim>\<open>(1, 2)\<close>.
\<close>

definition example_camera :: "pose ndarray" where
  "example_camera =
     \<lparr>shape = [2, 1],
      data = [\<lparr>poses = scale 2 eye4, valid_poses = True, num_points = None\<rparr>,
              \<lparr>poses = eye4, valid_poses = False, num_points = None\<rparr>]\<rparr>"

definition example_rig :: "pose ndarray" where
  "example_rig =
     \<lparr>shape = [1, 2],
      data = [\<lparr>poses = scale 3 eye4, valid_poses = True, num_points = None\<rparr>,
              \<lparr>poses = scale 5 eye4, valid_poses = True, num_points = None\<rparr>]\<rparr>"

text \<open>
  Three poses as a table of shape \<^verbatim>\<open>(3,)\<close> and as one of shape \<^verbatim>\<open>(1, 3)\<close>, and
  two poses as a table of shape \<^verbatim>\<open>(2,)\<close>.
\<close>

definition example_row3 :: "pose ndarray" where
  "example_row3 = \<lparr>shape = [3], data = [valid_pose eye4, valid_pose eye4, valid_pose eye4]\<rparr>"

definition example_1x3 :: "pose ndarray" where
  "example_1x3 = \<lparr>shape = [1, 3], data = [valid_pose eye4, valid_pose eye4, valid_pose eye4]\<rparr>"

definition example_row2 :: "pose ndarray" where
  "example_row2 = \<lparr>shape = [2], data = [valid_pose eye4, invalid_pose]\<rparr>"

text \<open>Two point tables over two board points; the second point is invalid in one of them.\<close>

definition example_points1 :: "point ndarray" where
  "example_points1 =
     \<lparr>shape = [2],
      data = [\<lparr>points = [3, 4], valid_points = True\<rparr>,
              \<lparr>points = [1, 1], valid_points = True\<rparr>]\<rparr>"

definition example_points2 :: "point ndarray" where
  "example_points2 =
     \<lparr>shape = [2],
      data = [\<lparr>points = [0, 0], valid_points = True\<rparr>,
              \<lparr>points = [5, 5], valid_points = False\<rparr>]\<rparr>"

text \<open>Two cameras by two frames; no camera sees the board in frame 1.\<close>

definition example_dark_frame :: "pose ndarray" where
  "example_dark_frame =
     \<lparr>shape = [2, 2],
      data = [observed True 5, invalid_pose, observed True 4, invalid_pose]\<rparr>"

text \<open>Two cameras by two frames; no camera sees the board in frame 0.\<close>

definition example_dark_first :: "pose ndarray" where
  "example_dark_first =
     \<lparr>shape = [2, 2],
      data = [invalid_pose, observed True 5, invalid_pose, observed True 4]\<rparr>"

section \<open>Stereo calibration\<close>

text \<open>
  \<^verbatim>\<open>
  def matching_points(points, board, cam1, cam2):
    points1, points2 = points._index[cam1], points._index[cam2]
    matching = []
    for i, j in zip(points1._sequence(0), points2._sequence(0)):
      row1, row2, ids = common_entries(i, j, 'valid_points')
      matching.append(struct(
          points1=row1.points,
          points2=row2.points,
          object_points=board.points[ids],
          ids=ids))
    return transpose_structs(matching)

  def stereo_calibrate(points, board, cameras, i, j, **kwargs):
    matching = matching_points(points, board, i, j)
    return stereo_calibrate((cameras[i], cameras[j]), matching, **kwargs)
  \<close>
  Python checks no types before a call, and \<^verbatim>\<open>stereo_calibrate\<close> calls itself with
  other kinds of values than its caller passes: the arguments are objects, of the kinds
  that occur in these two functions. A point table; a board, which is the array of its
  points, one row per point; a list of cameras, which are opaque; an integer; the pair of
  two cameras; and the struct of matched points. That struct, and the struct of one frame
  it is transposed from, are written as the tuple of their fields \<^verbatim>\<open>points1\<close>,
  \<^verbatim>\<open>points2\<close>, \<^verbatim>\<open>object_points\<close> and \<^verbatim>\<open>ids\<close>, in this order.
\<close>

type_synonym frame_match = "real list list \<times> real list list \<times> real list list \<times> nat list"

type_synonym matching =
  "real list list list \<times> real list list list \<times> real list list list \<times> nat list list"

datatype 'c pyobject =
    PointTable "point ndarray"
  | Board "real list list"
  | Cameras "'c list"
  | Index int
  | CameraPair 'c 'c
  | Matching matching

text \<open>
  \<^verbatim>\<open>table._index[i]\<close> and \<^verbatim>\<open>cameras[i]\<close> with an integer: a negative index counts
  from the end, and an index outside the range raises. \<^verbatim>\<open>board.points[ids]\<close> takes the
  rows of the board at the indices \<open>ids\<close>, which are not negative.
\<close>

definition table_index :: "'a ndarray \<Rightarrow> int \<Rightarrow> error + 'a ndarray" where
  "table_index table i =
     (case shape table of
        [] \<Rightarrow> Inl IndexError
      | n # _ \<Rightarrow> (case norm_index n i of Inl e \<Rightarrow> Inl e | Inr k \<Rightarrow> index_select table k 0))"

definition list_index :: "'a list \<Rightarrow> int \<Rightarrow> error + 'a" where
  "list_index xs i = (case norm_index (length xs) i of Inl e \<Rightarrow> Inl e | Inr k \<Rightarrow> Inr (xs ! k))"

definition take_rows :: "'a list \<Rightarrow> nat list \<Rightarrow> error + 'a list" where
  "take_rows rows ks =
     (if list_all (\<lambda>k. k < length rows) ks then Inr (map ((!) rows) ks) else Inl IndexError)"

text \<open>
  \<^verbatim>\<open>transpose_structs(structs)\<close> makes one list per field of the first struct; an
  empty list has no first struct.
\<close>

definition transpose_structs ::
  "('a \<times> 'b \<times> 'c \<times> 'd) list \<Rightarrow> error + ('a list \<times> 'b list \<times> 'c list \<times> 'd list)" where
  "transpose_structs structs =
     (if structs = [] then Inl IndexError
      else Inr (map fst structs, map (\<lambda>s. fst (snd s)) structs,
                map (\<lambda>s. fst (snd (snd s))) structs, map (\<lambda>s. snd (snd (snd s))) structs))"

text \<open>
  The body of the loop of \<^verbatim>\<open>matching_points\<close> for the rows \<open>i\<close> and \<open>j\<close> of one
  frame. An object that is not a board has no \<^verbatim>\<open>points\<close>.
\<close>

definition frame_matching ::
  "'c pyobject \<Rightarrow> point ndarray \<Rightarrow> point ndarray \<Rightarrow> error + frame_match" where
  "frame_matching board i j =
     (case common_entries i j valid_points of
        Inl e \<Rightarrow> Inl e
      | Inr (row1, row2, ks) \<Rightarrow>
          (case board of
             Board board_points \<Rightarrow>
               (case take_rows board_points ks of
                  Inl e \<Rightarrow> Inl e
                | Inr object_points \<Rightarrow>
                    Inr (map points (data row1), map points (data row2), object_points, ks))
           | _ \<Rightarrow> Inl AttributeError))"

text \<open>
  An object that is not a table has no \<^verbatim>\<open>_index\<close>, and a table is not indexed by an
  object that is not an integer. Which exception the second case raises depends on the
  object; it is \<^verbatim>\<open>TypeError\<close> here, and no statement below depends on which it is.
\<close>

definition matching_points ::
  "'c pyobject \<Rightarrow> 'c pyobject \<Rightarrow> 'c pyobject \<Rightarrow> 'c pyobject \<Rightarrow> error + matching" where
  "matching_points pts board cam1 cam2 =
     (case pts of
        PointTable table \<Rightarrow>
          (case (cam1, cam2) of
             (Index c1, Index c2) \<Rightarrow>
               (case table_index table c1 of Inl e \<Rightarrow> Inl e | Inr points1 \<Rightarrow>
                case table_index table c2 of Inl e \<Rightarrow> Inl e | Inr points2 \<Rightarrow>
                case sequence points1 0 of Inl e \<Rightarrow> Inl e | Inr rows1 \<Rightarrow>
                case sequence points2 0 of Inl e \<Rightarrow> Inl e | Inr rows2 \<Rightarrow>
                case mapM (\<lambda>(i, j). frame_matching board i j) (zip rows1 rows2) of
                  Inl e \<Rightarrow> Inl e
                | Inr matching \<Rightarrow> transpose_structs matching)
           | _ \<Rightarrow> Inl TypeError)
      | _ \<Rightarrow> Inl AttributeError)"

text \<open>
  \<^verbatim>\<open>cameras[i]\<close>: only a list of cameras is indexed here, and only by an integer.
\<close>

definition getitem :: "'c pyobject \<Rightarrow> 'c pyobject \<Rightarrow> error + 'c" where
  "getitem cameras i =
     (case (cameras, i) of
        (Cameras cs, Index k) \<Rightarrow> list_index cs k
      | _ \<Rightarrow> Inl TypeError)"

text \<open>
  A call \<^verbatim>\<open>stereo_calibrate(*args, **kwargs)\<close> first binds the arguments to the
  parameters \<^verbatim>\<open>points, board, cameras, i, j\<close>, none of which has a default: the
  positional arguments go to the first parameters in order, and there must not be more of
  them than parameters; a keyword argument that names a parameter goes to it, unless a
  positional argument went there already; every parameter must have got an argument; the
  keyword arguments that name no parameter are the dictionary \<^verbatim>\<open>kwargs\<close> of the body.
  A call that breaks one of these rules raises \<^verbatim>\<open>TypeError\<close> and the body does not
  run. Keyword arguments are an association list; Python rejects a call in which a name
  occurs twice.
\<close>

definition parameters :: "string list" where
  "parameters = [''points'', ''board'', ''cameras'', ''i'', ''j'']"

definition other_keywords :: "(string \<times> 'v) list \<Rightarrow> (string \<times> 'v) list" where
  "other_keywords kwargs = filter (\<lambda>(name, v). name \<notin> set parameters) kwargs"

definition bind_arguments ::
  "'v list \<Rightarrow> (string \<times> 'v) list \<Rightarrow> error + ('v list \<times> (string \<times> 'v) list)" where
  "bind_arguments args kwargs =
     (if length parameters < length args then Inl TypeError
      else if list_ex (\<lambda>name. name \<in> set (map fst kwargs)) (take (length args) parameters)
      then Inl TypeError
      else
        case those (map (map_of kwargs) (drop (length args) parameters)) of
          None \<Rightarrow> Inl TypeError
        | Some named \<Rightarrow> Inr (args @ named, other_keywords kwargs))"

text \<open>
  The function on the arguments of a call. It returns \<open>None\<close> when the call does not
  come back, \<open>Some (Inl e)\<close> when it raises \<open>e\<close>, and \<open>Some (Inr v)\<close> when it returns
  \<open>v\<close>. The name \<^verbatim>\<open>stereo_calibrate\<close> in the body is the function itself: the module
  binds the name to nothing else.
\<close>

partial_function (option) stereo_calibrate ::
  "'c pyobject list \<Rightarrow> (string \<times> 'c pyobject) list \<Rightarrow> (error + 'c pyobject) option" where
  "stereo_calibrate args kwargs =
     (case bind_arguments args kwargs of
        Inl e \<Rightarrow> Some (Inl e)
      | Inr (bound, rest) \<Rightarrow>
          (let pts = bound ! 0; board = bound ! 1; cameras = bound ! 2;
               i = bound ! 3; j = bound ! 4
           in case matching_points pts board i j of
                Inl e \<Rightarrow> Some (Inl e)
              | Inr matching \<Rightarrow>
                  (case getitem cameras i of
                     Inl e \<Rightarrow> Some (Inl e)
                   | Inr camera_i \<Rightarrow>
                       (case getitem cameras j of
                          Inl e \<Rightarrow> Some (Inl e)
                        | Inr camera_j \<Rightarrow>
                            stereo_calibrate [CameraPair camera_i camera_j, Matching matching]
                              rest))))"

text \<open>
  Two cameras by one frame by two board points, of which both cameras see the first; a
  board of two points; and the cameras 10 and 11.
\<close>

definition example_point_table :: "point ndarray" where
  "example_point_table =
     \<lparr>shape = [2, 1, 2],
      data = [\<lparr>points = [3, 4], valid_points = True\<rparr>,
              \<lparr>points = [0, 0], valid_points = False\<rparr>,
              \<lparr>points = [5, 6], valid_points = True\<rparr>,
              \<lparr>points = [7, 8], valid_points = True\<rparr>]\<rparr>"

definition example_board :: "real list list" where
  "example_board = [[0, 0, 0], [1, 0, 0]]"

definition example_call :: "nat pyobject list" where
  "example_call =
     [PointTable example_point_table, Board example_board, Cameras [10, 11], Index 0, Index 1]"

section \<open>Properties of index assignment\<close>

lemma norm_indices_in_range:
  "\<forall>i\<in>set ids. 0 \<le> i \<and> i < int n \<Longrightarrow> norm_indices n ids = Inr (map nat ids)"
  by (induction ids) (simp_all add: norm_index_def)

lemma length_assign_rows: "length (assign_rows dense js vs) = length dense"
  by (induction dense js vs rule: assign_rows.induct) simp_all

lemma assign_rows_other:
  "j \<notin> set js \<Longrightarrow> assign_rows dense js vs ! j = dense ! j"
  by (induction dense js vs rule: assign_rows.induct) simp_all

lemma assign_rows_hit:
  "length js = length vs \<Longrightarrow> distinct js \<Longrightarrow> \<forall>j\<in>set js. j < length dense \<Longrightarrow>
   k < length js \<Longrightarrow> assign_rows dense js vs ! (js ! k) = vs ! k"
proof (induction dense js vs arbitrary: k rule: assign_rows.induct)
  case (1 dense j js v vs)
  show ?case
  proof (cases k)
    case 0
    with 1 show ?thesis
      by (simp add: assign_rows_other)
  next
    case (Suc k')
    with 1 show ?thesis
      by simp
  qed
qed simp_all

lemma setitem_in_range:
  assumes "\<forall>i\<in>set ids. 0 \<le> i \<and> i < int (length dense)"
    and "length vals = length ids"
  shows "setitem dense ids vals = Inr (assign_rows dense (map nat ids) vals)"
  using assms by (simp add: setitem_def norm_indices_in_range broadcast_rows_def)

lemma setitem_scalar_in_range:
  assumes "\<forall>i\<in>set ids. 0 \<le> i \<and> i < int (length dense)"
  shows "setitem dense ids [v] =
         Inr (assign_rows dense (map nat ids) (replicate (length ids) v))"
proof (cases "length ids = 1")
  case True
  then obtain y where "ids = [y]"
    by (auto simp add: length_Suc_conv)
  with assms show ?thesis
    by (simp add: setitem_def norm_index_def broadcast_rows_def)
next
  case False
  with assms show ?thesis
    by (simp add: setitem_def norm_indices_in_range broadcast_rows_def)
qed

lemma distinct_map_nat:
  "distinct ids \<Longrightarrow> \<forall>i\<in>set ids. (0::int) \<le> i \<Longrightarrow> distinct (map nat ids)"
proof -
  assume d: "distinct ids" and nn: "\<forall>i\<in>set ids. (0::int) \<le> i"
  have "inj_on nat (set ids)"
  proof (rule inj_onI)
    fix x y assume "x \<in> set ids" "y \<in> set ids" "nat x = nat y"
    with nn show "x = y"
      by (simp add: eq_nat_nat_iff)
  qed
  with d show ?thesis
    by (simp add: distinct_map)
qed

lemma nat_in_map_nat:
  "\<forall>i\<in>set ids. (0::int) \<le> i \<Longrightarrow> (j \<in> set (map nat ids)) = (int j \<in> set ids)"
  by (induction ids) auto

lemma fill_tile_dense:
  assumes "\<forall>i\<in>set ids. 0 \<le> i \<and> i < int n" and "length vals = length ids"
    and "distinct ids"
  shows "length (assign_rows (replicate n t) (map nat ids) vals) = n"
    and "\<forall>k<length ids. assign_rows (replicate n t) (map nat ids) vals ! nat (ids ! k) = vals ! k"
    and "\<forall>j<n. int j \<notin> set ids \<longrightarrow> assign_rows (replicate n t) (map nat ids) vals ! j = t"
proof -
  show "length (assign_rows (replicate n t) (map nat ids) vals) = n"
    by (simp add: length_assign_rows)
  have d: "distinct (map nat ids)"
    using assms by (simp add: distinct_map_nat)
  have r: "\<forall>j\<in>set (map nat ids). j < length (replicate n t)"
    using assms(1) by auto
  show "\<forall>k<length ids. assign_rows (replicate n t) (map nat ids) vals ! nat (ids ! k) = vals ! k"
  proof (intro allI impI)
    fix k assume k: "k < length ids"
    have "assign_rows (replicate n t) (map nat ids) vals ! (map nat ids ! k) = vals ! k"
      using assign_rows_hit [of "map nat ids" vals "replicate n t" k] assms(2) d r k by simp
    with k show "assign_rows (replicate n t) (map nat ids) vals ! nat (ids ! k) = vals ! k"
      by simp
  qed
  show "\<forall>j<n. int j \<notin> set ids \<longrightarrow> assign_rows (replicate n t) (map nat ids) vals ! j = t"
  proof (intro allI impI)
    fix j assume j: "j < n" and nj: "int j \<notin> set ids"
    have "j \<notin> set (map nat ids)"
      using nat_in_map_nat [of ids j] assms(1) nj by simp
    then show "assign_rows (replicate n t) (map nat ids) vals ! j = t"
      using j by (simp add: assign_rows_other)
  qed
qed

lemma fill_tile_mask:
  assumes "\<forall>i\<in>set ids. 0 \<le> i \<and> i < int n" and "j < n"
  shows "assign_rows (replicate n False) (map nat ids) (replicate (length ids) True) ! j
         = (int j \<in> set ids)"
proof (cases "int j \<in> set ids")
  case True
  then obtain k where k: "k < length ids" "ids ! k = int j"
    by (auto simp add: in_set_conv_nth)
  have "\<And>dense. \<forall>i\<in>set ids. 0 \<le> i \<and> i < int (length (dense :: bool list)) \<Longrightarrow>
        int j \<in> set ids \<Longrightarrow>
        assign_rows dense (map nat ids) (replicate (length ids) True) ! j"
  proof (induction ids)
    case Nil
    then show ?case by simp
  next
    case (Cons i ids)
    show ?case
    proof (cases "int j \<in> set ids")
      case True
      with Cons show ?thesis by simp
    next
      case False
      with Cons.prems have ij: "i = int j" by simp
      from False Cons.prems have "j \<notin> set (map nat ids)"
        using nat_in_map_nat [of ids j] by simp
      with ij Cons.prems show ?thesis
        by (simp add: assign_rows_other)
    qed
  qed
  from this [of "replicate n False"] assms True show ?thesis by simp
next
  case False
  then have "j \<notin> set (map nat ids)"
    using nat_in_map_nat [of ids j] assms(1) by simp
  with False assms(2) show ?thesis
    by (simp add: assign_rows_other)
qed

lemma fill_sparse_example:
  "fill_sparse 4 [7, 9 :: int] [2, 0] = Inr ([9, 0, 7, 0], [True, False, True, False])"
  by code_simp

lemma fill_sparse_out_of_range: "fill_sparse 1 [5 :: int] [3] = Inl IndexError"
  by code_simp

lemma fill_sparse_length_mismatch: "fill_sparse 3 [5, 6 :: int] [0, 1, 2] = Inl ValueError"
  by code_simp

section \<open>Properties of arrays\<close>

lemma length_indices: "length (indices s) = prod_list s"
proof (induction s)
  case Nil
  then show ?case by simp
next
  case (Cons n ns)
  have "length (concat (map (\<lambda>i. map ((#) i) (indices ns)) [0..<n])) = n * prod_list ns"
    by (simp add: length_concat comp_def Cons.IH sum_list_triv)
  then show ?case by simp
qed

lemma concat_blocks:
  "concat (map (\<lambda>i. map (\<lambda>k. i * p + k) [0..<p]) [0..<n]) = [0..<n * p]"
proof (induction n)
  case 0
  then show ?case by simp
next
  case (Suc n)
  have a: "map (\<lambda>k. n * p + k) [0..<p] = [n * p..<n * p + p]"
    using map_add_upt [of "n * p" p] by (simp add: add.commute)
  have b: "[0..<n * p + p] = [0..<n * p] @ [n * p..<n * p + p]"
    by (rule upt_add_eq_append) simp
  have "concat (map (\<lambda>i. map (\<lambda>k. i * p + k) [0..<p]) [0..<Suc n])
        = [0..<n * p] @ [n * p..<n * p + p]"
    using Suc a by simp
  also have "\<dots> = [0..<Suc n * p]"
    using b by (simp add: add.commute)
  finally show ?case .
qed

lemma ravel_indices: "map (ravel s) (indices s) = [0..<prod_list s]"
proof (induction s)
  case Nil
  then show ?case by simp
next
  case (Cons n ns)
  have "map (ravel (n # ns)) (indices (n # ns))
        = concat (map (\<lambda>i. map (\<lambda>idx. i * prod_list ns + ravel ns idx) (indices ns)) [0..<n])"
    by (simp add: map_concat comp_def)
  also have "\<dots> = concat (map (\<lambda>i. map (\<lambda>k. i * prod_list ns + k) (map (ravel ns) (indices ns))) [0..<n])"
    by (simp add: comp_def)
  also have "\<dots> = [0..<n * prod_list ns]"
    by (simp only: Cons.IH concat_blocks)
  finally show ?case by simp
qed

lemma valid_index_iff: "valid_index s idx \<longleftrightarrow> idx \<in> set (indices s)"
  by (induction s idx rule: valid_index.induct) auto

lemma valid_index_length: "valid_index s idx \<Longrightarrow> length idx = length s"
  by (induction s idx rule: valid_index.induct) simp_all

lemma valid_index_nth: "valid_index s idx \<Longrightarrow> k < length s \<Longrightarrow> idx ! k < s ! k"
proof (induction s idx arbitrary: k rule: valid_index.induct)
  case (2 n ns i idx)
  then show ?case by (cases k) simp_all
qed simp_all

lemma valid_indexI:
  "length idx = length s \<Longrightarrow> (\<And>k. k < length s \<Longrightarrow> idx ! k < s ! k) \<Longrightarrow> valid_index s idx"
proof (induction s idx rule: valid_index.induct)
  case (2 n ns i idx)
  have "i < n" using "2.prems"(2) [of 0] by simp
  moreover have "valid_index ns idx"
  proof (rule "2.IH")
    show "length idx = length ns" using "2.prems"(1) by simp
    fix k assume "k < length ns"
    then show "idx ! k < ns ! k" using "2.prems"(2) [of "Suc k"] by simp
  qed
  ultimately show ?case by simp
qed simp_all

lemma ravel_valid:
  assumes "valid_index s idx"
  shows "ravel s idx < prod_list s" and "indices s ! ravel s idx = idx"
proof -
  from assms obtain k where k: "k < length (indices s)" "indices s ! k = idx"
    by (auto simp add: valid_index_iff in_set_conv_nth)
  have "map (ravel s) (indices s) ! k = [0..<prod_list s] ! k"
    by (simp only: ravel_indices)
  with k have r: "ravel s idx = k"
    by (simp add: length_indices)
  with k show "ravel s idx < prod_list s" by (simp add: length_indices)
  from r k show "indices s ! ravel s idx = idx" by simp
qed

lemma item_tabulate: "valid_index s idx \<Longrightarrow> item (tabulate s f) idx = f idx"
  by (simp add: item_def tabulate_def ravel_valid length_indices)

lemma shape_tabulate: "shape (tabulate s f) = s"
  by (simp add: tabulate_def)

lemma data_tabulate: "data (tabulate s f) = map f (indices s)"
  by (simp add: tabulate_def)

lemma wf_tabulate: "wf_array (tabulate s f)"
  by (simp add: wf_array_def tabulate_def length_indices)

lemma map_item_indices: "wf_array a \<Longrightarrow> map (item a) (indices (shape a)) = data a"
proof -
  assume w: "wf_array a"
  have "map (item a) (indices (shape a)) = map ((!) (data a)) (map (ravel (shape a)) (indices (shape a)))"
    by (simp add: item_def comp_def)
  also have "\<dots> = map ((!) (data a)) [0..<length (data a)]"
    using w by (simp only: ravel_indices wf_array_def)
  finally show ?thesis by (simp add: map_nth)
qed

lemma item_map_array:
  "wf_array a \<Longrightarrow> valid_index (shape a) idx \<Longrightarrow> item (map_array f a) idx = f (item a idx)"
  by (simp add: item_def map_array_def wf_array_def ravel_valid)

section \<open>Properties of the overlap matrix\<close>

lemma item_in_data:
  "wf_array a \<Longrightarrow> valid_index (shape a) idx \<Longrightarrow> item a idx \<in> set (data a)"
  by (simp add: item_def wf_array_def ravel_valid)

lemma valid_index_insert:
  assumes "axis < length s" and "i < s ! axis"
    and "valid_index (take axis s @ drop (Suc axis) s) idx"
  shows "valid_index s (take axis idx @ i # drop axis idx)"
proof (rule valid_indexI)
  have l: "length idx = length s - 1"
    using valid_index_length [OF assms(3)] assms(1) by simp
  show "length (take axis idx @ i # drop axis idx) = length s"
    using l assms(1) by simp
  fix k assume k: "k < length s"
  let ?r = "take axis s @ drop (Suc axis) s"
  consider "k < axis" | "k = axis" | "axis < k" by linarith
  then show "(take axis idx @ i # drop axis idx) ! k < s ! k"
  proof cases
    case 1
    then have "idx ! k < ?r ! k"
      using valid_index_nth [OF assms(3), of k] assms(1) by simp
    with 1 l assms(1) show ?thesis
      by (simp add: nth_append)
  next
    case 2
    with l assms show ?thesis
      by (simp add: nth_append)
  next
    case 3
    then obtain d where d: "k = Suc (axis + d)"
      by (metis less_iff_Suc_add)
    have "idx ! (axis + d) < ?r ! (axis + d)"
      using valid_index_nth [OF assms(3), of "axis + d"] k d assms(1) by simp
    with d k l assms(1) show ?thesis
      by (simp add: nth_append)
  qed
qed

lemma bdims_same: "bdims xs xs = Some xs"
  by (induction xs) simp_all

lemma broadcast_shapes_same: "broadcast_shapes s s = Inr s"
  by (simp add: broadcast_shapes_def bdims_same)

lemma bcast_index_same: "valid_index s idx \<Longrightarrow> bcast_index s idx = idx"
proof -
  assume v: "valid_index s idx"
  have "map2 (\<lambda>n i. if n = 1 then 0 else i) s idx = idx"
    using v by (induction s idx rule: valid_index.induct) auto
  then show ?thesis
    using valid_index_length [OF v] by (simp add: bcast_index_def)
qed

lemma broadcast2_same_shape:
  assumes "shape a = shape b"
  shows "broadcast2 f a b = Inr (tabulate (shape a) (\<lambda>idx. f (item a idx) (item b idx)))"
proof -
  have "map (\<lambda>idx. f (item a (bcast_index (shape a) idx)) (item b (bcast_index (shape a) idx)))
          (indices (shape a))
        = map (\<lambda>idx. f (item a idx) (item b idx)) (indices (shape a))"
    by (rule map_cong) (simp_all add: valid_index_iff [symmetric] bcast_index_same)
  then show ?thesis
    using assms by (simp add: broadcast2_def broadcast_shapes_same tabulate_def)
qed

lemma those_map_Some:
  "\<forall>x\<in>set xs. f x \<noteq> None \<Longrightarrow> those (map f xs) = Some (map (\<lambda>x. the (f x)) xs)"
  by (induction xs) auto

lemma zip_map_same: "zip (map f xs) (map g xs) = map (\<lambda>x. (f x, g x)) xs"
  by (induction xs) simp_all

lemma overlap_pair_value:
  assumes wf: "wf_array table" and ax: "axis < length (shape table)"
    and np: "\<forall>r\<in>set (data table). num_points r \<noteq> None"
    and i: "i < shape table ! axis" and j: "j < shape table ! axis"
  shows "overlap_pair table axis i j =
         Inr (\<Sum>idx\<leftarrow>indices (take axis (shape table) @ drop (Suc axis) (shape table)).
               (if valid_poses (item table (take axis idx @ i # drop axis idx))
                   \<and> valid_poses (item table (take axis idx @ j # drop axis idx))
                then 1 else 0)
               * min (the (num_points (item table (take axis idx @ i # drop axis idx))))
                     (the (num_points (item table (take axis idx @ j # drop axis idx)))))"
proof -
  let ?s = "take axis (shape table) @ drop (Suc axis) (shape table)"
  let ?fi = "\<lambda>idx. item table (take axis idx @ i # drop axis idx)"
  let ?fj = "\<lambda>idx. item table (take axis idx @ j # drop axis idx)"
  have si: "index_select table i axis = Inr (tabulate ?s ?fi)"
    and sj: "index_select table j axis = Inr (tabulate ?s ?fj)"
    using ax i j by (simp_all add: index_select_def)
  have mi: "\<And>g. map_array g (tabulate ?s ?fi) = tabulate ?s (\<lambda>idx. g (?fi idx))"
    and mj: "\<And>g. map_array g (tabulate ?s ?fj) = tabulate ?s (\<lambda>idx. g (?fj idx))"
    by (simp_all add: map_array_def tabulate_def)
  have hp: "broadcast2 (\<and>) (tabulate ?s (\<lambda>idx. valid_poses (?fi idx)))
              (tabulate ?s (\<lambda>idx. valid_poses (?fj idx)))
            = Inr (tabulate ?s (\<lambda>idx. valid_poses (?fi idx) \<and> valid_poses (?fj idx)))"
  proof -
    have "map (\<lambda>idx. item (tabulate ?s (\<lambda>idx. valid_poses (?fi idx))) idx
                    \<and> item (tabulate ?s (\<lambda>idx. valid_poses (?fj idx))) idx) (indices ?s)
          = map (\<lambda>idx. valid_poses (?fi idx) \<and> valid_poses (?fj idx)) (indices ?s)"
      by (rule map_cong) (simp_all add: valid_index_iff [symmetric] item_tabulate)
    then show ?thesis
      by (simp add: broadcast2_same_shape shape_tabulate) (simp add: tabulate_def)
  qed
  have somei: "\<forall>idx\<in>set (indices ?s). num_points (?fi idx) \<noteq> None"
    using np wf ax i by (auto simp add: valid_index_iff [symmetric]
        intro!: item_in_data valid_index_insert dest!: bspec)
  have somej: "\<forall>idx\<in>set (indices ?s). num_points (?fj idx) \<noteq> None"
    using np wf ax j by (auto simp add: valid_index_iff [symmetric]
        intro!: item_in_data valid_index_insert dest!: bspec)
  have ni: "field_num_points (tabulate ?s ?fi)
            = Inr \<lparr>shape = ?s, data = map (\<lambda>idx. the (num_points (?fi idx))) (indices ?s)\<rparr>"
    using those_map_Some [of "indices ?s" "\<lambda>idx. num_points (?fi idx)", OF somei]
    by (simp add: field_num_points_def tabulate_def comp_def)
  have nj: "field_num_points (tabulate ?s ?fj)
            = Inr \<lparr>shape = ?s, data = map (\<lambda>idx. the (num_points (?fj idx))) (indices ?s)\<rparr>"
    using those_map_Some [of "indices ?s" "\<lambda>idx. num_points (?fj idx)", OF somej]
    by (simp add: field_num_points_def tabulate_def comp_def)
  let ?w = "\<lambda>idx. min (the (num_points (?fi idx))) (the (num_points (?fj idx)))"
  have mn: "np_min2 \<lparr>shape = ?s, data = map (\<lambda>idx. the (num_points (?fi idx))) (indices ?s)\<rparr>
              \<lparr>shape = ?s, data = map (\<lambda>idx. the (num_points (?fj idx))) (indices ?s)\<rparr>
            = Inr (tabulate ?s ?w)"
    by (simp add: np_min2_def tabulate_def zip_map_same comp_def)
  let ?h = "\<lambda>idx. valid_poses (?fi idx) \<and> valid_poses (?fj idx)"
  have pr: "broadcast2 (\<lambda>h w. (if h then 1 else 0) * w) (tabulate ?s ?h) (tabulate ?s ?w)
            = Inr (tabulate ?s (\<lambda>idx. (if ?h idx then 1 else 0) * ?w idx))"
  proof -
    have "map (\<lambda>idx. (if item (tabulate ?s ?h) idx then 1 else 0) * item (tabulate ?s ?w) idx)
            (indices ?s)
          = map (\<lambda>idx. (if ?h idx then 1 else 0) * ?w idx) (indices ?s)"
      by (rule map_cong) (simp_all add: valid_index_iff [symmetric] item_tabulate)
    then show ?thesis
      by (simp add: broadcast2_same_shape shape_tabulate) (simp add: tabulate_def)
  qed
  show ?thesis
    unfolding overlap_pair_def si sj by (simp add: mi mj hp ni nj mn pr data_tabulate)
qed

lemma square_set2: "square n m \<Longrightarrow> square n (set2 m i j v)"
proof -
  assume s: "square n m"
  show ?thesis
  proof (cases "i < length m")
    case True
    have "\<forall>row\<in>set (m[i := (m ! i)[j := v]]). length row = n"
    proof
      fix row assume "row \<in> set (m[i := (m ! i)[j := v]])"
      then have "row = (m ! i)[j := v] \<or> row \<in> set m"
        using set_update_subset_insert [of m i "(m ! i)[j := v]"] by blast
      moreover have "length ((m ! i)[j := v]) = n"
        using s True by (simp add: square_def)
      moreover have "row \<in> set m \<Longrightarrow> length row = n"
        using s by (simp add: square_def)
      ultimately show "length row = n"
        by blast
    qed
    moreover have "length (m[i := (m ! i)[j := v]]) = n"
      using s by (simp add: square_def)
    ultimately show ?thesis
      unfolding square_def set2_def by blast
  next
    case False
    then have "length m \<le> i"
      by simp
    then have "set2 m i j v = m"
      unfolding set2_def by (rule list_update_beyond)
    with s show ?thesis
      by simp
  qed
qed

lemma nth_set2:
  assumes "square n m" and "i < n" and "j < n"
  shows "set2 m i j v ! a ! b = (if a = i \<and> b = j then v else m ! a ! b)"
proof -
  have li: "i < length m" and lj: "j < length (m ! i)"
    using assms by (simp_all add: square_def)
  show ?thesis
  proof (cases "a = i")
    case True
    then have "set2 m i j v ! a = (m ! i)[j := v]"
      using li by (simp add: set2_def)
    with True lj show ?thesis
      by (simp add: nth_list_update)
  next
    case False
    then have "set2 m i j v ! a = m ! a"
      by (simp add: set2_def)
    with False show ?thesis
      by simp
  qed
qed

lemma nth_set2_twice:
  assumes "square n m" and "i < n" and "j < n"
  shows "set2 (set2 m i j v) j i w ! a ! b =
         (if a = j \<and> b = i then w else if a = i \<and> b = j then v else m ! a ! b)"
proof -
  have "square n (set2 m i j v)"
    using assms(1) by (rule square_set2)
  then have "set2 (set2 m i j v) j i w ! a ! b
             = (if a = j \<and> b = i then w else set2 m i j v ! a ! b)"
    using assms(3,2) by (rule nth_set2)
  moreover have "set2 m i j v ! a ! b = (if a = i \<and> b = j then v else m ! a ! b)"
    using assms by (rule nth_set2)
  ultimately show ?thesis
    by (simp only:)
qed

lemma overlaps_inner_result:
  assumes "\<forall>j\<in>set js. j < n \<and> overlap_pair table axis i j = Inr (W i j)"
    and "i < n" and "square n ov" and "i \<notin> set js"
  shows "\<exists>ov'. overlaps_inner table axis i js ov = Inr ov' \<and> square n ov'
           \<and> (\<forall>a<n. \<forall>b<n. ov' ! a ! b =
                 (if a = i \<and> b \<in> set js then W i b
                  else if b = i \<and> a \<in> set js then W i a
                  else ov ! a ! b))"
  using assms
proof (induction js arbitrary: ov)
  case Nil
  then show ?case by simp
next
  case (Cons j js)
  let ?ov1 = "set2 (set2 ov i j (W i j)) j i (W i j)"
  have sq: "square n ?ov1"
    using Cons.prems(3) by (simp add: square_set2)
  have j: "j < n" "j \<noteq> i"
    using Cons.prems(1,4) by auto
  have e1: "\<forall>a<n. \<forall>b<n. ?ov1 ! a ! b =
              (if a = i \<and> b = j then W i j else if a = j \<and> b = i then W i j else ov ! a ! b)"
    using nth_set2_twice [OF Cons.prems(3,2) j(1)] j(2) by simp
  have p1: "\<forall>j\<in>set js. j < n \<and> overlap_pair table axis i j = Inr (W i j)"
    and p4: "i \<notin> set js"
    using Cons.prems(1,4) by simp_all
  from Cons.IH [OF p1 Cons.prems(2) sq p4]
  obtain ov' where r: "overlaps_inner table axis i js ?ov1 = Inr ov'" "square n ov'"
    and e2: "\<forall>a<n. \<forall>b<n. ov' ! a ! b =
                 (if a = i \<and> b \<in> set js then W i b
                  else if b = i \<and> a \<in> set js then W i a
                  else ?ov1 ! a ! b)"
    by blast
  have "overlaps_inner table axis i (j # js) ov = Inr ov'"
    using Cons.prems(1) r by simp
  moreover have "\<forall>a<n. \<forall>b<n. ov' ! a ! b =
                 (if a = i \<and> b \<in> set (j # js) then W i b
                  else if b = i \<and> a \<in> set (j # js) then W i a
                  else ov ! a ! b)"
  proof (intro allI impI)
    fix a b assume ab: "a < n" "b < n"
    show "ov' ! a ! b =
                 (if a = i \<and> b \<in> set (j # js) then W i b
                  else if b = i \<and> a \<in> set (j # js) then W i a
                  else ov ! a ! b)"
      unfolding e2 [rule_format, OF ab] e1 [rule_format, OF ab] by auto
  qed
  ultimately show ?case
    using r(2) by blast
qed

lemma overlaps_outer_result:
  assumes "\<forall>i<n. \<forall>j<n. overlap_pair table axis i j = Inr (W i j)"
    and "\<forall>i\<in>set rest. i < n" and "square n ov" and "distinct rest"
  shows "\<exists>ov'. overlaps_outer table axis n rest ov = Inr ov' \<and> square n ov'
           \<and> (\<forall>a<n. \<forall>b<n. ov' ! a ! b =
                 (if a \<in> set rest \<and> a < b then W a b
                  else if b \<in> set rest \<and> b < a then W b a
                  else ov ! a ! b))"
  using assms
proof (induction rest arbitrary: ov)
  case Nil
  then show ?case by simp
next
  case (Cons i rest)
  have i: "i < n" using Cons.prems(2) by simp
  have "\<forall>j\<in>set [Suc i..<n]. j < n \<and> overlap_pair table axis i j = Inr (W i j)"
    using Cons.prems(1) i by simp
  from overlaps_inner_result [where W = W and ov = ov, OF this i Cons.prems(3)]
  obtain ov1 where r1: "overlaps_inner table axis i [Suc i..<n] ov = Inr ov1" "square n ov1"
    and e1': "\<forall>a<n. \<forall>b<n. ov1 ! a ! b =
                 (if a = i \<and> b \<in> set [Suc i..<n] then W i b
                  else if b = i \<and> a \<in> set [Suc i..<n] then W i a else ov ! a ! b)"
    by auto
  have e1: "\<forall>a<n. \<forall>b<n. ov1 ! a ! b =
                 (if a = i \<and> i < b then W i b else if b = i \<and> i < a then W i a else ov ! a ! b)"
  proof (intro allI impI)
    fix a b assume ab: "a < n" "b < n"
    show "ov1 ! a ! b =
                 (if a = i \<and> i < b then W i b else if b = i \<and> i < a then W i a else ov ! a ! b)"
      unfolding e1' [rule_format, OF ab] using ab by (simp add: Suc_le_eq)
  qed
  have p2: "\<forall>i\<in>set rest. i < n" and p4: "distinct rest"
    using Cons.prems(2,4) by simp_all
  from Cons.IH [OF Cons.prems(1) p2 r1(2) p4]
  obtain ov' where r2: "overlaps_outer table axis n rest ov1 = Inr ov'" "square n ov'"
    and e2: "\<forall>a<n. \<forall>b<n. ov' ! a ! b =
                 (if a \<in> set rest \<and> a < b then W a b
                  else if b \<in> set rest \<and> b < a then W b a
                  else ov1 ! a ! b)"
    by blast
  have "overlaps_outer table axis n (i # rest) ov = Inr ov'"
    using r1 r2 by simp
  moreover have "\<forall>a<n. \<forall>b<n. ov' ! a ! b =
                 (if a \<in> set (i # rest) \<and> a < b then W a b
                  else if b \<in> set (i # rest) \<and> b < a then W b a
                  else ov ! a ! b)"
  proof (intro allI impI)
    fix a b assume ab: "a < n" "b < n"
    show "ov' ! a ! b =
                 (if a \<in> set (i # rest) \<and> a < b then W a b
                  else if b \<in> set (i # rest) \<and> b < a then W b a
                  else ov ! a ! b)"
      unfolding e2 [rule_format, OF ab] e1 [rule_format, OF ab] by auto
  qed
  ultimately show ?case
    using r2(2) by blast
qed

lemma pattern_overlaps_result:
  assumes "axis < length (shape table)"
    and "\<forall>i<shape table ! axis. \<forall>j<shape table ! axis. overlap_pair table axis i j = Inr (W i j)"
  shows "\<exists>ov. pattern_overlaps table axis = Inr ov \<and> square (shape table ! axis) ov
           \<and> (\<forall>a<shape table ! axis. \<forall>b<shape table ! axis. ov ! a ! b =
                 (if a < b then W a b else if b < a then W b a else 0))"
proof -
  let ?n = "shape table ! axis"
  have sq: "square ?n (replicate ?n (replicate ?n (0::int)))"
    by (simp add: square_def)
  from overlaps_outer_result [where W = W and rest = "[0..<?n]", OF assms(2) _ sq]
  obtain ov' where r: "overlaps_outer table axis ?n [0..<?n] (replicate ?n (replicate ?n 0)) = Inr ov'"
    "square ?n ov'"
    and e: "\<forall>a<?n. \<forall>b<?n. ov' ! a ! b =
                 (if a \<in> set [0..<?n] \<and> a < b then W a b
                  else if b \<in> set [0..<?n] \<and> b < a then W b a
                  else replicate ?n (replicate ?n 0) ! a ! b)"
    by auto
  have "pattern_overlaps table axis = Inr ov'"
    using assms(1) r(1) by (simp add: pattern_overlaps_def)
  moreover have "\<forall>a<?n. \<forall>b<?n. ov' ! a ! b =
                 (if a < b then W a b else if b < a then W b a else 0)"
  proof (intro allI impI)
    fix a b assume ab: "a < ?n" "b < ?n"
    show "ov' ! a ! b = (if a < b then W a b else if b < a then W b a else 0)"
      unfolding e [rule_format, OF ab] using ab by simp
  qed
  ultimately show ?thesis
    using r(2) by blast
qed

lemma overlap_pair_sum:
  assumes wf: "wf_array table" and ax: "axis < length (shape table)"
    and np: "\<forall>r\<in>set (data table). num_points r \<noteq> None"
    and i: "i < shape table ! axis" and j: "j < shape table ! axis"
  shows "overlap_pair table axis i j = Inr (overlap_sum table axis i j)"
proof -
  have p: "\<And>k idx. k < shape table ! axis \<Longrightarrow> idx \<in> set (indices (row_shape table axis)) \<Longrightarrow>
           the (num_points (row_item table axis k idx)) = points_of (row_item table axis k idx)"
  proof -
    fix k idx assume k: "k < shape table ! axis" and "idx \<in> set (indices (row_shape table axis))"
    then have "valid_index (shape table) (take axis idx @ k # drop axis idx)"
      using ax by (simp add: valid_index_iff [symmetric] row_shape_def valid_index_insert)
    then have "row_item table axis k idx \<in> set (data table)"
      using wf by (simp add: row_item_def item_in_data)
    with np show "the (num_points (row_item table axis k idx)) = points_of (row_item table axis k idx)"
      by (auto simp add: points_of_def)
  qed
  have "overlap_pair table axis i j =
        Inr (\<Sum>idx\<leftarrow>indices (row_shape table axis).
               (if valid_poses (row_item table axis i idx) \<and> valid_poses (row_item table axis j idx)
                then 1 else 0)
               * min (the (num_points (row_item table axis i idx)))
                     (the (num_points (row_item table axis j idx))))"
    using overlap_pair_value [OF assms] by (simp add: row_item_def row_shape_def)
  also have "\<dots> = Inr (overlap_sum table axis i j)"
    unfolding overlap_sum_def
    by (simp only: sum.inject) (rule arg_cong [where f = sum_list], rule map_cong, simp, simp add: p i j)
  finally show ?thesis .
qed

lemma overlap_sum_commute: "overlap_sum table axis i j = overlap_sum table axis j i"
  by (simp add: overlap_sum_def conj_commute min.commute)

lemma example_overlap_sum: "overlap_sum example_pose_table 0 0 1 = 4"
  by code_simp

lemma example_pattern_overlaps: "pattern_overlaps example_pose_table 0 = Inr [[0, 4], [4, 0]]"
  by code_simp

section \<open>Properties of the pose chainer\<close>

lemma estimate_transform_ok:
  assumes "axis < length (shape table)" and "i < shape table ! axis" and "j < shape table ! axis"
  shows "\<exists>t. estimate_transform align table i j axis = Inr t"
  using assms by (simp add: estimate_transform_def index_select_def)

lemma dict_get_Some: "map_of d k = Some v \<Longrightarrow> dict_get d k = Inr v"
  by (simp add: dict_get_def)

lemma chain_poses_result:
  assumes "axis < length (shape table)"
    and "\<forall>(p, c)\<in>set pairs. p < shape table ! axis \<and> c < shape table ! axis"
    and "tree_order (map fst d) pairs"
    and "distinct (map fst d)"
  shows "\<exists>d'. chain_poses align table axis pairs d = Inr d'
           \<and> distinct (map fst d')
           \<and> set (map fst d') = set (map fst d) \<union> snd ` set pairs
           \<and> (\<forall>k\<in>set (map fst d). map_of d' k = map_of d k)
           \<and> (\<forall>(p, c)\<in>set pairs. \<exists>t pp. estimate_transform align table p c axis = Inr t
                  \<and> map_of d' p = Some pp \<and> map_of d' c = Some (matmul t pp))"
  using assms(2-)
proof (induction pairs arbitrary: d)
  case Nil
  then show ?case by simp
next
  case (Cons pc pairs)
  obtain p c where pc: "pc = (p, c)" by (cases pc)
  have pn: "p < shape table ! axis" and cn: "c < shape table ! axis"
    using Cons.prems(1) pc by simp_all
  have pin: "p \<in> set (map fst d)" and cnew: "c \<notin> set (map fst d)"
    and ord: "tree_order (map fst d @ [c]) pairs"
    using Cons.prems(2) pc by simp_all
  obtain t where t: "estimate_transform align table p c axis = Inr t"
    using estimate_transform_ok [OF assms(1) pn cn] by blast
  obtain pp where pp: "map_of d p = Some pp"
    using pin by (metis map_of_eq_None_iff not_Some_eq set_map)
  let ?d1 = "AList.update c (matmul t pp) d"
  have k1: "map fst ?d1 = map fst d @ [c]"
    using cnew by (simp add: update_keys)
  have d1: "distinct (map fst ?d1)"
    using Cons.prems(3) by (rule distinct_update)
  have m1: "map_of ?d1 = (map_of d)(c \<mapsto> matmul t pp)"
    by (rule update_conv')
  have a1: "\<forall>(p, c)\<in>set pairs. p < shape table ! axis \<and> c < shape table ! axis"
    using Cons.prems(1) by simp
  have o1: "tree_order (map fst ?d1) pairs"
    using ord k1 by simp
  from Cons.IH [OF a1 o1 d1]
  obtain d' where r: "chain_poses align table axis pairs ?d1 = Inr d'"
    and dd: "distinct (map fst d')"
    and ks: "set (map fst d') = set (map fst ?d1) \<union> snd ` set pairs"
    and same: "\<forall>k\<in>set (map fst ?d1). map_of d' k = map_of ?d1 k"
    and edges: "\<forall>(p, c)\<in>set pairs. \<exists>t pp. estimate_transform align table p c axis = Inr t
                  \<and> map_of d' p = Some pp \<and> map_of d' c = Some (matmul t pp)"
    by blast
  have pneqc: "p \<noteq> c"
    using pin cnew by auto
  have run: "chain_poses align table axis (pc # pairs) d = Inr d'"
    using pc t pp r by (simp add: dict_get_Some)
  have keys: "set (map fst d') = set (map fst d) \<union> snd ` set (pc # pairs)"
    using ks k1 pc by auto
  have keep: "\<forall>k\<in>set (map fst d). map_of d' k = map_of d k"
  proof
    fix k assume k: "k \<in> set (map fst d)"
    then have "k \<noteq> c" using cnew by auto
    moreover have "k \<in> set (map fst ?d1)"
      unfolding k1 using k by simp
    then have "map_of d' k = map_of ?d1 k"
      using same by blast
    ultimately show "map_of d' k = map_of d k"
      by (simp add: m1)
  qed
  have hp: "map_of d' p = Some pp"
    using keep [rule_format, OF pin] pp by simp
  have "c \<in> set (map fst ?d1)"
    unfolding k1 by simp
  then have "map_of d' c = map_of ?d1 c"
    using same by blast
  then have hc: "map_of d' c = Some (matmul t pp)"
    by (simp add: m1)
  have "\<forall>(p, c)\<in>set (pc # pairs). \<exists>t pp. estimate_transform align table p c axis = Inr t
                  \<and> map_of d' p = Some pp \<and> map_of d' c = Some (matmul t pp)"
    using edges t hp hc pc by auto
  with run dd keys keep show ?case
    by blast
qed

lemma mapM_dict_get:
  "\<forall>k\<in>set ks. k \<in> fst ` set d \<Longrightarrow>
   mapM (dict_get d) ks = Inr (map (\<lambda>k. the (map_of d k)) ks)"
proof (induction ks)
  case Nil
  then show ?case by simp
next
  case (Cons k ks)
  then obtain v where "map_of d k = Some v"
    by (metis list.set_intros(1) map_of_eq_None_iff not_Some_eq)
  with Cons show ?case
    by (simp add: dict_get_def)
qed

lemma fill_sparse_tile_in_range:
  assumes "\<forall>i\<in>set ids. 0 \<le> i \<and> i < int n" and "length vals = length ids"
  shows "fill_sparse_tile n vals ids tile =
         Inr (assign_rows (replicate n tile) (map nat ids) vals,
              assign_rows (replicate n False) (map nat ids) (replicate (length ids) True))"
  using assms by (simp add: fill_sparse_tile_def setitem_in_range setitem_scalar_in_range)

lemma fill_poses_result:
  assumes dist: "distinct (map fst d)" and ne: "d \<noteq> []" and rng: "\<forall>k\<in>set (map fst d). k < n"
  shows "\<exists>filled. fill_poses d n = Inr filled \<and> shape filled = [n] \<and> length (data filled) = n
           \<and> (\<forall>k<n. data filled ! k =
                 (case map_of d k of
                    None \<Rightarrow> \<lparr>poses = eye4, valid_poses = False, num_points = None\<rparr>
                  | Some p \<Rightarrow> \<lparr>poses = p, valid_poses = True, num_points = None\<rparr>))"
proof -
  let ?ks = "sort (map fst d)"
  let ?ids = "map int ?ks"
  let ?pt = "map (\<lambda>k. the (map_of d k)) ?ks"
  let ?dense = "assign_rows (replicate n eye4) (map nat ?ids) ?pt"
  let ?msk = "assign_rows (replicate n False) (map nat ?ids) (replicate (length ?ids) True)"
  let ?mk = "\<lambda>p v. \<lparr>poses = p, valid_poses = v, num_points = None\<rparr>"
  let ?filled = "\<lparr>shape = [n], data = map2 ?mk ?dense ?msk\<rparr>"
  have sks: "set ?ks = set (map fst d)" and dks: "distinct ?ks"
    using dist by simp_all
  have m: "mapM (dict_get d) ?ks = Inr ?pt"
    by (rule mapM_dict_get) simp
  have pne: "?pt \<noteq> []"
    using ne by (metis Nil_is_map_conv length_0_conv length_sort)
  have h1: "\<forall>i\<in>set ?ids. 0 \<le> i \<and> i < int n"
    using rng by auto
  have h2: "length ?pt = length ?ids"
    by simp
  have h3: "distinct ?ids"
    using dks by (simp add: distinct_map inj_on_def)
  have run: "fill_poses d n = Inr ?filled"
    using m pne fill_sparse_tile_in_range [OF h1 h2, of eye4]
    by (simp add: fill_poses_def Let_def table_create_def)
  have ld: "length ?dense = n" and lm: "length ?msk = n"
    by (simp_all add: length_assign_rows)
  have "\<forall>k<n. data ?filled ! k =
                 (case map_of d k of
                    None \<Rightarrow> \<lparr>poses = eye4, valid_poses = False, num_points = None\<rparr>
                  | Some p \<Rightarrow> \<lparr>poses = p, valid_poses = True, num_points = None\<rparr>)"
  proof (intro allI impI)
    fix k assume k: "k < n"
    have nth: "data ?filled ! k = ?mk (?dense ! k) (?msk ! k)"
      using k ld lm by simp
    have mk: "?msk ! k = (int k \<in> set ?ids)"
      using fill_tile_mask [OF h1 k] .
    show "data ?filled ! k =
                 (case map_of d k of
                    None \<Rightarrow> \<lparr>poses = eye4, valid_poses = False, num_points = None\<rparr>
                  | Some p \<Rightarrow> \<lparr>poses = p, valid_poses = True, num_points = None\<rparr>)"
    proof (cases "k \<in> set (map fst d)")
      case True
      then obtain p where p: "map_of d k = Some p"
        by (metis map_of_eq_None_iff not_Some_eq set_map)
      from True obtain j where j: "j < length ?ks" "?ks ! j = k"
        using sks by (metis in_set_conv_nth)
      have "?dense ! nat (?ids ! j) = ?pt ! j"
        using fill_tile_dense(2) [OF h1 h2 h3, of eye4] j(1) by simp
      then have "?dense ! k = p"
        using j p by simp
      moreover have "k \<in> set ?ks"
        unfolding sks using True .
      then have "int k \<in> set ?ids"
        unfolding set_map by (rule imageI)
      then have "?msk ! k"
        using mk by simp
      ultimately show ?thesis
        unfolding nth p by simp
    next
      case False
      then have "k \<notin> fst ` set d"
        by simp
      then have none: "map_of d k = None"
        by (rule map_of_eq_None_iff [THEN iffD2])
      have "k \<notin> set ?ks"
        unfolding sks using False .
      then have notin: "int k \<notin> set ?ids"
        unfolding set_map by (simp only: inj_image_mem_iff [OF inj_of_nat] simp_thms)
      have "?dense ! k = eye4"
        using fill_tile_dense(3) [OF h1 h2 h3, of eye4] k notin by blast
      moreover have "\<not> ?msk ! k"
        using mk notin by simp
      ultimately show ?thesis
        using nth none by simp
    qed
  qed
  moreover have "length (data ?filled) = n"
    using ld lm by simp
  ultimately show ?thesis
    using run by (intro exI [of _ ?filled]) simp
qed

lemma example_two_eye: "matmul (scale 2 eye4) eye4 = scale 2 eye4"
  by (simp add: matmul_def scale_def eye4_def)

lemma example_tree_order: "tree_order [0] [(0, 1)]"
  by simp

lemma estimate_transform_rows:
  assumes "axis < length (shape table)" and "i < shape table ! axis" and "j < shape table ! axis"
  shows "estimate_transform align table i j axis =
         Inr (fst (align (tabulate (row_shape table axis) (\<lambda>idx. poses (row_item table axis i idx)))
                         (tabulate (row_shape table axis) (\<lambda>idx. poses (row_item table axis j idx)))))"
  using assms
  by (simp add: estimate_transform_def index_select_def map_array_def tabulate_def
      row_shape_def row_item_def comp_def)

lemma indices_2: "indices [2] = [[0], [1]]"
  by code_simp

lemma example_mixed_rows:
  "row_shape example_mixed_table 0 = [2]"
  "row_item example_mixed_table 0 0 [0] = \<lparr>poses = scale 2 eye4, valid_poses = True, num_points = Some 5\<rparr>"
  "row_item example_mixed_table 0 0 [Suc 0] = \<lparr>poses = scale 3 eye4, valid_poses = True, num_points = Some 3\<rparr>"
  "row_item example_mixed_table 0 (Suc 0) [0] = \<lparr>poses = scale 5 eye4, valid_poses = True, num_points = Some 4\<rparr>"
  "row_item example_mixed_table 0 (Suc 0) [Suc 0] = invalid_pose"
  by (simp_all add: row_shape_def row_item_def item_def example_mixed_table_def)

section \<open>Properties of broadcasting\<close>

lemma can_broadcast_nth:
  "can_broadcast s1 s2 \<Longrightarrow> k < length s1 \<Longrightarrow> s1 ! k = s2 ! k \<or> s1 ! k = 1 \<or> s2 ! k = 1"
  by (auto simp add: can_broadcast_def list_all_length)

lemma can_broadcast_iff:
  "can_broadcast s1 s2 \<longleftrightarrow>
   length s1 = length s2 \<and> (\<forall>k<length s1. s1 ! k = s2 ! k \<or> s1 ! k = 1 \<or> s2 ! k = 1)"
  by (auto simp add: can_broadcast_def list_all_length)

lemma bdims_compatible:
  "length xs = length ys \<Longrightarrow> list_all (\<lambda>(x, y). x = y \<or> x = 1 \<or> y = 1) (zip xs ys) \<Longrightarrow>
   bdims xs ys = Some (map2 (\<lambda>x y. if x = 1 then y else x) xs ys)"
  by (induction xs ys rule: list_induct2) auto

lemma broadcast_shapes_can_broadcast:
  assumes "can_broadcast s1 s2"
  shows "broadcast_shapes s1 s2 = Inr (broadcast_result_shape s1 s2)"
proof -
  have l: "length s1 = length s2"
    and c: "list_all (\<lambda>(x, y). x = y \<or> x = 1 \<or> y = 1) (zip s1 s2)"
    using assms by (simp_all add: can_broadcast_def)
  have "list_all (\<lambda>(x, y). x = y \<or> x = 1 \<or> y = 1) (zip (rev s1) (rev s2))"
    using c l by (simp add: zip_rev list_all_iff)
  then have "bdims (rev s1) (rev s2) = Some (map2 (\<lambda>x y. if x = 1 then y else x) (rev s1) (rev s2))"
    using l by (simp add: bdims_compatible)
  moreover have "map2 (\<lambda>x y. if x = 1 then y else x) (rev s1) (rev s2)
                 = rev (map2 (\<lambda>x y. if x = 1 then y else x) s1 s2)"
    using l by (simp add: zip_rev rev_map)
  ultimately show ?thesis
    by (simp add: broadcast_shapes_def broadcast_result_shape_def)
qed

lemma bcast_index_valid:
  assumes cb: "can_broadcast s1 s2" and v: "valid_index (broadcast_result_shape s1 s2) idx"
  shows "valid_index s1 (bcast_index s1 idx)" and "valid_index s2 (bcast_index s2 idx)"
proof -
  have l: "length s1 = length s2"
    using cb by (simp add: can_broadcast_def)
  have li: "length idx = length s1"
    using valid_index_length [OF v] l by (simp add: broadcast_result_shape_def)
  have b: "\<And>k. k < length s1 \<Longrightarrow> idx ! k < (if s1 ! k = 1 then s2 ! k else s1 ! k)"
    using valid_index_nth [OF v] l by (simp add: broadcast_result_shape_def)
  show "valid_index s1 (bcast_index s1 idx)"
  proof (rule valid_indexI)
    show "length (bcast_index s1 idx) = length s1"
      using li by (simp add: bcast_index_def)
    fix k assume k: "k < length s1"
    then show "bcast_index s1 idx ! k < s1 ! k"
      using b [OF k] li by (auto simp add: bcast_index_def split: if_splits)
  qed
  show "valid_index s2 (bcast_index s2 idx)"
  proof (rule valid_indexI)
    show "length (bcast_index s2 idx) = length s2"
      using li l by (simp add: bcast_index_def)
    fix k assume k: "k < length s2"
    then show "bcast_index s2 idx ! k < s2 ! k"
      using b [of k] can_broadcast_nth [OF cb, of k] li l
      by (auto simp add: bcast_index_def split: if_splits)
  qed
qed

lemma wf_map_array: "wf_array a \<Longrightarrow> wf_array (map_array f a)"
  by (simp add: wf_array_def map_array_def)

lemma shape_map_array: "shape (map_array f a) = shape a"
  by (simp add: map_array_def)

lemma broadcast2_fields:
  assumes cb: "can_broadcast (shape a) (shape b)" and wa: "wf_array a" and wb: "wf_array b"
  shows "broadcast2 h (map_array f a) (map_array g b) =
         Inr (tabulate (broadcast_result_shape (shape a) (shape b))
                (\<lambda>idx. h (f (item a (bcast_index (shape a) idx)))
                           (g (item b (bcast_index (shape b) idx)))))"
proof -
  let ?s = "broadcast_result_shape (shape a) (shape b)"
  have "map (\<lambda>idx. h (item (map_array f a) (bcast_index (shape a) idx))
                       (item (map_array g b) (bcast_index (shape b) idx))) (indices ?s)
        = map (\<lambda>idx. h (f (item a (bcast_index (shape a) idx)))
                         (g (item b (bcast_index (shape b) idx)))) (indices ?s)"
  proof (rule map_cong [OF refl])
    fix idx assume "idx \<in> set (indices ?s)"
    then have v: "valid_index ?s idx"
      by (simp add: valid_index_iff)
    show "h (item (map_array f a) (bcast_index (shape a) idx))
            (item (map_array g b) (bcast_index (shape b) idx))
          = h (f (item a (bcast_index (shape a) idx))) (g (item b (bcast_index (shape b) idx)))"
      using bcast_index_valid [OF cb v] wa wb by (simp add: item_map_array)
  qed
  then show ?thesis
    using broadcast_shapes_can_broadcast [OF cb]
    by (simp add: broadcast2_def shape_map_array tabulate_def)
qed

lemma example_camera_rig:
  "can_broadcast (shape example_camera) (shape example_rig)"
  "wf_array example_camera" "wf_array example_rig"
  "broadcast_result_shape (shape example_camera) (shape example_rig) = [2, 2]"
  by (simp_all add: can_broadcast_def wf_array_def broadcast_result_shape_def
      example_camera_def example_rig_def)

lemma example_camera_rig_items:
  "item example_camera (bcast_index (shape example_camera) [0, Suc 0])
     = \<lparr>poses = scale 2 eye4, valid_poses = True, num_points = None\<rparr>"
  "item example_rig (bcast_index (shape example_rig) [0, Suc 0])
     = \<lparr>poses = scale 5 eye4, valid_poses = True, num_points = None\<rparr>"
  "item example_camera (bcast_index (shape example_camera) [Suc 0, 0])
     = \<lparr>poses = eye4, valid_poses = False, num_points = None\<rparr>"
  "item example_rig (bcast_index (shape example_rig) [Suc 0, 0])
     = \<lparr>poses = scale 3 eye4, valid_poses = True, num_points = None\<rparr>"
  by (simp_all add: item_def bcast_index_def example_camera_def example_rig_def)

lemma multiply_tables_ok:
  assumes "can_broadcast (shape table1) (shape table2)"
  shows "\<exists>product. multiply_tables table1 table2 = Inr product
           \<and> shape product = broadcast_result_shape (shape table1) (shape table2)"
  using assms broadcast_shapes_can_broadcast [OF assms]
  by (simp add: multiply_tables_def broadcast2_def shape_map_array table_create_def tabulate_def)

lemma broadcast_to_not_assertion:
  assumes "can_broadcast (shape table1) (shape table2)"
  shows "broadcast_to table1 table2 \<noteq> Inl AssertionError"
    and "broadcast_to table1 table2 = Inr expanded \<Longrightarrow> shape expanded = shape table2"
  using assms by (auto simp add: broadcast_to_def np_broadcast_to_def tabulate_def split: if_splits)

section \<open>Properties of the reprojection error\<close>

lemma norm2_sub: "norm2 (map2 (-) u v) = euclidean_distance u v"
  unfolding norm2_def euclidean_distance_def
  by (simp add: comp_def case_prod_unfold)

lemma euclidean_distance_self: "euclidean_distance v v = 0"
proof -
  have "(\<Sum>(x, y)\<leftarrow>zip v v. (x - y) ^ 2) = 0"
    by (induction v) simp_all
  then show ?thesis
    by (simp add: euclidean_distance_def)
qed

lemma mapM_Inr: "mapM id (map (\<lambda>x. Inr (f x)) xs) = Inr (map f xs)"
  by (induction xs) simp_all

lemma filter_zip_map:
  "map fst (filter snd (zip (map f xs) (map g xs))) = map f (filter g xs)"
  by (induction xs) simp_all

lemma can_broadcast_refl: "can_broadcast s s"
  by (simp add: can_broadcast_def list_all_length)

lemma broadcast_result_shape_same: "broadcast_result_shape s s = s"
  by (induction s) (simp_all add: broadcast_result_shape_def)

lemma reprojection_error_result:
  assumes cb: "can_broadcast (shape pts1) (shape pts2)"
    and w1: "wf_array pts1" and w2: "wf_array pts2"
    and d1: "\<forall>p\<in>set (data pts1). length (points p) = d"
    and d2: "\<forall>p\<in>set (data pts2). length (points p) = d"
  shows "reprojection_error pts1 pts2 =
         Inr (tabulate (broadcast_result_shape (shape pts1) (shape pts2))
                (\<lambda>idx. if valid_points (item pts1 (bcast_index (shape pts1) idx))
                            \<and> valid_points (item pts2 (bcast_index (shape pts2) idx))
                         then euclidean_distance (points (item pts1 (bcast_index (shape pts1) idx)))
                                (points (item pts2 (bcast_index (shape pts2) idx)))
                         else 0),
              tabulate (broadcast_result_shape (shape pts1) (shape pts2))
                (\<lambda>idx. valid_points (item pts1 (bcast_index (shape pts1) idx))
                       \<and> valid_points (item pts2 (bcast_index (shape pts2) idx))))"
proof -
  let ?s = "broadcast_result_shape (shape pts1) (shape pts2)"
  let ?a = "\<lambda>idx. item pts1 (bcast_index (shape pts1) idx)"
  let ?b = "\<lambda>idx. item pts2 (bcast_index (shape pts2) idx)"
  have m: "broadcast2 (\<and>) (map_array valid_points pts1) (map_array valid_points pts2)
           = Inr (tabulate ?s (\<lambda>idx. valid_points (?a idx) \<and> valid_points (?b idx)))"
    by (rule broadcast2_fields [OF cb w1 w2])
  have sub: "broadcast2 vec_sub (map_array points pts1) (map_array points pts2)
           = Inr (tabulate ?s (\<lambda>idx. vec_sub (points (?a idx)) (points (?b idx))))"
    by (rule broadcast2_fields [OF cb w1 w2])
  have "map (\<lambda>idx. vec_sub (points (?a idx)) (points (?b idx))) (indices ?s)
        = map (\<lambda>idx. Inr (map2 (-) (points (?a idx)) (points (?b idx)))) (indices ?s)"
  proof (rule map_cong [OF refl])
    fix idx assume "idx \<in> set (indices ?s)"
    then have v: "valid_index ?s idx"
      by (simp add: valid_index_iff)
    have "?a idx \<in> set (data pts1)" "?b idx \<in> set (data pts2)"
      using bcast_index_valid [OF cb v] w1 w2 by (simp_all add: item_in_data)
    then have "length (points (?a idx)) = length (points (?b idx))"
      using d1 d2 by simp
    then show "vec_sub (points (?a idx)) (points (?b idx))
               = Inr (map2 (-) (points (?a idx)) (points (?b idx)))"
      by (simp add: vec_sub_def)
  qed
  then have "mapM id (map (\<lambda>idx. vec_sub (points (?a idx)) (points (?b idx))) (indices ?s))
        = Inr (map (\<lambda>idx. map2 (-) (points (?a idx)) (points (?b idx))) (indices ?s))"
    by (simp only: mapM_Inr)
  then have diff: "broadcast2E vec_sub (map_array points pts1) (map_array points pts2)
           = Inr (tabulate ?s (\<lambda>idx. map2 (-) (points (?a idx)) (points (?b idx))))"
    unfolding broadcast2E_def sub tabulate_def by (simp only: ndarray.simps sum.case)
  have nrm: "map_array norm2 (tabulate ?s (\<lambda>idx. map2 (-) (points (?a idx)) (points (?b idx))))
           = tabulate ?s (\<lambda>idx. euclidean_distance (points (?a idx)) (points (?b idx)))"
    by (simp add: map_array_def tabulate_def norm2_sub)
  have asg: "assign_where_not
               (tabulate ?s (\<lambda>idx. euclidean_distance (points (?a idx)) (points (?b idx))))
               (tabulate ?s (\<lambda>idx. valid_points (?a idx) \<and> valid_points (?b idx))) 0
           = Inr (tabulate ?s (\<lambda>idx. if valid_points (?a idx) \<and> valid_points (?b idx)
                                   then euclidean_distance (points (?a idx)) (points (?b idx))
                                   else 0))"
    by (simp add: assign_where_not_def tabulate_def zip_map_same)
  show ?thesis
    unfolding reprojection_error_def m diff by (simp add: nrm asg)
qed

lemma example_points_facts:
  "can_broadcast (shape example_points1) (shape example_points2)"
  "wf_array example_points1" "wf_array example_points2"
  "\<forall>p\<in>set (data example_points1). length (points p) = 2"
  "\<forall>p\<in>set (data example_points2). length (points p) = 2"
  "broadcast_result_shape (shape example_points1) (shape example_points2) = [2]"
  by (simp_all add: can_broadcast_def wf_array_def broadcast_result_shape_def
      example_points1_def example_points2_def)

lemma example_points_items:
  "item example_points1 (bcast_index (shape example_points1) [0]) = \<lparr>points = [3, 4], valid_points = True\<rparr>"
  "item example_points2 (bcast_index (shape example_points2) [0]) = \<lparr>points = [0, 0], valid_points = True\<rparr>"
  "item example_points1 (bcast_index (shape example_points1) [Suc 0]) = \<lparr>points = [1, 1], valid_points = True\<rparr>"
  "item example_points2 (bcast_index (shape example_points2) [Suc 0]) = \<lparr>points = [5, 5], valid_points = False\<rparr>"
  by (simp_all add: item_def bcast_index_def example_points1_def example_points2_def)

lemma example_distance: "euclidean_distance [3, 4] [0, 0] = 5"
proof -
  have "sqrt 25 = sqrt (5 ^ 2)"
    by simp
  also have "\<dots> = 5"
    by (simp only: real_sqrt_abs abs_numeral)
  finally show ?thesis
    by (simp add: euclidean_distance_def)
qed

section \<open>Properties of the matrix inverse\<close>

lemma matmul_adjugate: "matmul M (adjugate M) = scale (det M) eye4"
  by (cases M) (simp add: matmul_def adjugate_def scale_def det_def det3_def eye4_def algebra_simps)

lemma adjugate_matmul: "matmul (adjugate M) M = scale (det M) eye4"
  by (cases M) (simp add: matmul_def adjugate_def scale_def det_def det3_def eye4_def algebra_simps)

lemma matmul_assoc: "matmul (matmul A B) C = matmul A (matmul B C)"
  by (cases A; cases B; cases C) (simp add: matmul_def algebra_simps)

lemma matmul_eye4_left: "matmul eye4 M = M"
  by (cases M) (simp add: matmul_def eye4_def)

lemma matmul_eye4_right: "matmul M eye4 = M"
  by (cases M) (simp add: matmul_def eye4_def)

lemma matmul_scale_left: "matmul (scale c A) B = scale c (matmul A B)"
  by (cases A; cases B) (simp add: matmul_def scale_def algebra_simps)

lemma matmul_scale_right: "matmul A (scale c B) = scale c (matmul A B)"
  by (cases A; cases B) (simp add: matmul_def scale_def algebra_simps)

lemma scale_scale: "scale c (scale d M) = scale (c * d) M"
  by (cases M) (simp add: scale_def)

lemma scale_one: "scale 1 M = M"
  by (cases M) (simp add: scale_def)

lemma cauchy_binet3:
  "det3 (m00 (matmul A B)) (m01 (matmul A B)) (m02 (matmul A B)) (m10 (matmul A B)) (m11 (matmul A B)) (m12 (matmul A B)) (m20 (matmul A B)) (m21 (matmul A B)) (m22 (matmul A B)) =
     det3 (m01 A) (m02 A) (m03 A) (m11 A) (m12 A) (m13 A) (m21 A) (m22 A) (m23 A)
       * det3 (m10 B) (m11 B) (m12 B) (m20 B) (m21 B) (m22 B) (m30 B) (m31 B) (m32 B)
     + det3 (m00 A) (m02 A) (m03 A) (m10 A) (m12 A) (m13 A) (m20 A) (m22 A) (m23 A)
       * det3 (m00 B) (m01 B) (m02 B) (m20 B) (m21 B) (m22 B) (m30 B) (m31 B) (m32 B)
     + det3 (m00 A) (m01 A) (m03 A) (m10 A) (m11 A) (m13 A) (m20 A) (m21 A) (m23 A)
       * det3 (m00 B) (m01 B) (m02 B) (m10 B) (m11 B) (m12 B) (m30 B) (m31 B) (m32 B)
     + det3 (m00 A) (m01 A) (m02 A) (m10 A) (m11 A) (m12 A) (m20 A) (m21 A) (m22 A)
       * det3 (m00 B) (m01 B) (m02 B) (m10 B) (m11 B) (m12 B) (m20 B) (m21 B) (m22 B)"
  by (cases A; cases B) (simp add: matmul_def det3_def algebra_simps)

lemma adjugate_minors:
  "m03 (adjugate A) = - (det3 (m01 A) (m02 A) (m03 A) (m11 A) (m12 A) (m13 A) (m21 A) (m22 A) (m23 A))"
  "m13 (adjugate A) = (det3 (m00 A) (m02 A) (m03 A) (m10 A) (m12 A) (m13 A) (m20 A) (m22 A) (m23 A))"
  "m23 (adjugate A) = - (det3 (m00 A) (m01 A) (m03 A) (m10 A) (m11 A) (m13 A) (m20 A) (m21 A) (m23 A))"
  "m33 (adjugate A) = (det3 (m00 A) (m01 A) (m02 A) (m10 A) (m11 A) (m12 A) (m20 A) (m21 A) (m22 A))"
  by (simp_all add: adjugate_def)

lemma det3_eye4:
  "det3 (m00 eye4) (m01 eye4) (m02 eye4) (m10 eye4) (m11 eye4) (m12 eye4)
     (m20 eye4) (m21 eye4) (m22 eye4) = 1"
  by (simp add: eye4_def det3_def)

lemma scale_zero_eye4_minors:
  assumes "adjugate A = scale 0 M"
  shows "m03 (adjugate A) = 0" "m13 (adjugate A) = 0" "m23 (adjugate A) = 0" "m33 (adjugate A) = 0"
  unfolding assms by (simp_all add: scale_def)

lemma inverse_det_nonzero:
  assumes nm: "matmul N M = eye4" and mn: "matmul M N = eye4"
  shows "det N \<noteq> 0"
proof
  assume z: "det N = 0"
  have "adjugate N = matmul (matmul M N) (adjugate N)"
    by (simp add: mn matmul_eye4_left)
  also have "\<dots> = matmul M (matmul N (adjugate N))"
    by (rule matmul_assoc)
  also have "\<dots> = scale 0 M"
    by (simp add: matmul_adjugate z matmul_scale_right matmul_eye4_right)
  finally have a: "adjugate N = scale 0 M" .
  have "det3 (m00 (matmul N M)) (m01 (matmul N M)) (m02 (matmul N M))
             (m10 (matmul N M)) (m11 (matmul N M)) (m12 (matmul N M))
             (m20 (matmul N M)) (m21 (matmul N M)) (m22 (matmul N M)) = 0"
    unfolding cauchy_binet3
    using scale_zero_eye4_minors [OF a] by (simp add: adjugate_minors)
  then show False
    by (simp add: nm det3_eye4)
qed

lemma linalg_inv_matmul:
  assumes "linalg_inv M = Inr N"
  shows "matmul M N = eye4" and "matmul N M = eye4"
proof -
  have d: "det M \<noteq> 0" and n: "N = scale (1 / det M) (adjugate M)"
    using assms by (auto simp add: linalg_inv_def split: if_splits)
  show "matmul M N = eye4"
    using d by (simp add: n matmul_scale_right matmul_adjugate scale_scale scale_one)
  show "matmul N M = eye4"
    using d by (simp add: n matmul_scale_left adjugate_matmul scale_scale scale_one)
qed

lemma linalg_inv_involution:
  assumes "linalg_inv M = Inr N"
  shows "linalg_inv N = Inr M"
proof -
  have mn: "matmul M N = eye4" and nm: "matmul N M = eye4"
    using linalg_inv_matmul [OF assms] by simp_all
  have d: "det N \<noteq> 0"
    using nm mn by (rule inverse_det_nonzero)
  have "adjugate N = matmul (matmul M N) (adjugate N)"
    by (simp add: mn matmul_eye4_left)
  also have "\<dots> = matmul M (matmul N (adjugate N))"
    by (rule matmul_assoc)
  also have "\<dots> = scale (det N) M"
    by (simp add: matmul_adjugate matmul_scale_right matmul_eye4_right)
  finally have "scale (1 / det N) (adjugate N) = M"
    using d by (simp add: scale_scale scale_one)
  with d show ?thesis
    by (simp add: linalg_inv_def)
qed

lemma linalg_inv_ok: "det M \<noteq> 0 \<Longrightarrow> \<exists>N. linalg_inv M = Inr N"
  by (simp add: linalg_inv_def)

lemma linalg_inv_eye4: "linalg_inv eye4 = Inr eye4"
proof -
  have "det eye4 = 1"
    by (simp add: det_def det3_def eye4_def)
  moreover have "adjugate eye4 = eye4"
    by (simp add: adjugate_def det3_def eye4_def)
  ultimately show ?thesis
    by (simp add: linalg_inv_def scale_one)
qed

lemma mapM_linalg_inv:
  assumes "\<forall>r\<in>set rs. det (poses r) \<noteq> 0"
  shows "\<exists>ms. mapM linalg_inv (map poses rs) = Inr ms \<and> length ms = length rs
           \<and> mapM linalg_inv ms = Inr (map poses rs)"
  using assms
proof (induction rs)
  case Nil
  then show ?case by simp
next
  case (Cons r rs)
  then obtain ms where ms: "mapM linalg_inv (map poses rs) = Inr ms" "length ms = length rs"
    "mapM linalg_inv ms = Inr (map poses rs)"
    by auto
  obtain N where N: "linalg_inv (poses r) = Inr N"
    using Cons.prems linalg_inv_ok by auto
  have "mapM linalg_inv (map poses (r # rs)) = Inr (N # ms)"
    using ms N by simp
  moreover have "mapM linalg_inv (N # ms) = Inr (map poses (r # rs))"
    using ms linalg_inv_involution [OF N] by simp
  ultimately show ?case
    using ms(2) by (intro exI [of _ "N # ms"]) simp
qed

lemma mapM_length: "mapM f xs = Inr ys \<Longrightarrow> length ys = length xs"
  by (induction xs arbitrary: ys) (auto split: sum.splits)

lemma mapM_nth: "mapM f xs = Inr ys \<Longrightarrow> k < length xs \<Longrightarrow> f (xs ! k) = Inr (ys ! k)"
proof (induction xs arbitrary: ys k)
  case Nil
  then show ?case by simp
next
  case (Cons x xs)
  then show ?case
    by (cases k) (auto split: sum.splits)
qed

lemma map2_set_poses:
  "length rs = length ms \<Longrightarrow>
   map poses (map2 (\<lambda>r m. r\<lparr>poses := m\<rparr>) rs ms) = ms
   \<and> map2 (\<lambda>r m. r\<lparr>poses := m\<rparr>) (map2 (\<lambda>r m. r\<lparr>poses := m\<rparr>) rs ms) (map poses rs) = rs"
  by (induction rs ms rule: list_induct2) simp_all

lemma inverse_table_data:
  "mapM linalg_inv (map poses (data t)) = Inr ms \<Longrightarrow>
   inverse_table t = Inr (t\<lparr>data := map2 (\<lambda>r m. r\<lparr>poses := m\<rparr>) (data t) ms\<rparr>)"
  by (simp add: inverse_table_def)

lemma example_linalg_inv: "linalg_inv (scale 2 eye4) = Inr (scale (1 / 2) eye4)"
  by (simp add: linalg_inv_def det_def det3_def adjugate_def scale_def eye4_def)

lemma example_camera_invertible: "\<forall>r\<in>set (data example_camera). det (poses r) \<noteq> 0"
  by (simp add: example_camera_def det_def det3_def scale_def eye4_def)

section \<open>Properties of the relative poses\<close>

lemma filter_zip_snd: "map fst (filter snd (zip xs (map g xs))) = filter g xs"
  by (induction xs) simp_all

lemma broadcast2_fields_same:
  assumes sh: "shape a = shape b" and wa: "wf_array a" and wb: "wf_array b"
  shows "broadcast2 h (map_array f a) (map_array g b) =
         Inr (tabulate (shape a) (\<lambda>idx. h (f (item a idx)) (g (item b idx))))"
proof -
  have "map (\<lambda>idx. h (item (map_array f a) idx) (item (map_array g b) idx)) (indices (shape a))
        = map (\<lambda>idx. h (f (item a idx)) (g (item b idx))) (indices (shape a))"
    by (rule map_cong [OF refl])
      (simp add: valid_index_iff [symmetric] item_map_array wa wb sh [symmetric])
  then show ?thesis
    using broadcast2_same_shape [of "map_array f a" "map_array g b" h] sh
    by (simp add: shape_map_array tabulate_def)
qed

lemma take_indices_valid:
  assumes "\<forall>idx\<in>set idxs. valid_index (shape a) idx"
  shows "take_indices a idxs = Inr \<lparr>shape = [length idxs], data = map (item a) idxs\<rparr>"
  using assms by (simp add: take_indices_def list_all_iff)

lemma shared_entries_valid:
  "\<forall>idx\<in>set (shared_entries table1 table2). valid_index (shape table1) idx"
  by (simp add: shared_entries_def valid_index_iff)

lemma common_entries_result:
  assumes sh: "shape table1 = shape table2" and w1: "wf_array table1" and w2: "wf_array table2"
  shows "common_entries table1 table2 valid_poses =
         Inr (\<lparr>shape = [length (shared_entries table1 table2)],
                data = map (item table1) (shared_entries table1 table2)\<rparr>,
              \<lparr>shape = [length (shared_entries table1 table2)],
                data = map (item table2) (shared_entries table1 table2)\<rparr>,
              first_axis (shared_entries table1 table2))"
proof -
  let ?m = "\<lambda>idx. valid_poses (item table1 idx) \<and> valid_poses (item table2 idx)"
  have b: "broadcast2 (\<and>) (map_array valid_poses table1) (map_array valid_poses table2)
           = Inr (tabulate (shape table1) ?m)"
    by (rule broadcast2_fields_same [OF sh w1 w2])
  have nz: "nonzero (tabulate (shape table1) ?m) = shared_entries table1 table2"
    by (simp add: nonzero_def tabulate_def shared_entries_def filter_zip_snd)
  have t1: "take_indices table1 (shared_entries table1 table2)
            = Inr \<lparr>shape = [length (shared_entries table1 table2)],
                    data = map (item table1) (shared_entries table1 table2)\<rparr>"
    by (rule take_indices_valid [OF shared_entries_valid])
  have t2: "take_indices table2 (shared_entries table1 table2)
            = Inr \<lparr>shape = [length (shared_entries table1 table2)],
                    data = map (item table2) (shared_entries table1 table2)\<rparr>"
    using shared_entries_valid [of table1 table2] by (simp add: take_indices_valid sh)
  show ?thesis
    unfolding common_entries_def b by (simp add: nz t1 t2 Let_def)
qed

lemma relative_between_result:
  assumes sh: "shape table1 = shape table2" and w1: "wf_array table1" and w2: "wf_array table2"
  shows "relative_between align table1 table2 =
         (if shared_entries table1 table2 = [] then Inr invalid_pose
          else Inr (valid_pose (fst (align
                 \<lparr>shape = [length (shared_entries table1 table2)],
                   data = map (\<lambda>idx. poses (item table1 idx)) (shared_entries table1 table2)\<rparr>
                 \<lparr>shape = [length (shared_entries table1 table2)],
                   data = map (\<lambda>idx. poses (item table2 idx)) (shared_entries table1 table2)\<rparr>))))"
  unfolding relative_between_def common_entries_result [OF sh w1 w2]
  by (simp add: first_axis_def map_array_def comp_def)

lemma inverse_table_fields:
  assumes "inverse_table t = Inr u"
  shows "shape u = shape t" and "length (data u) = length (data t)"
    and "k < length (data t) \<Longrightarrow> valid_poses (data u ! k) = valid_poses (data t ! k)"
proof -
  from assms obtain ms where ms: "mapM linalg_inv (map poses (data t)) = Inr ms"
    and u: "u = t\<lparr>data := map2 (\<lambda>r m. r\<lparr>poses := m\<rparr>) (data t) ms\<rparr>"
    by (auto simp add: inverse_table_def split: sum.splits)
  have l: "length ms = length (data t)"
    using mapM_length [OF ms] by simp
  show "shape u = shape t" by (simp add: u)
  show "length (data u) = length (data t)" by (simp add: u l)
  show "k < length (data t) \<Longrightarrow> valid_poses (data u ! k) = valid_poses (data t ! k)"
    by (simp add: u l)
qed

lemma inverse_table_ok:
  assumes "\<forall>r\<in>set (data t). det (poses r) \<noteq> 0"
  shows "\<exists>u. inverse_table t = Inr u"
  using mapM_linalg_inv [OF assms] by (auto simp add: inverse_table_def)

lemma inverse_struct_invalid_pose: "inverse_struct invalid_pose = Inr invalid_pose"
  by (simp add: inverse_struct_def invalid_pose_def linalg_inv_eye4)

lemma inverse_struct_valid_pose:
  "det t \<noteq> 0 \<Longrightarrow> \<exists>m. inverse_struct (valid_pose t) = Inr (valid_pose m)"
  by (simp add: inverse_struct_def valid_pose_def linalg_inv_def)

lemma wf_inverse_table: "inverse_table t = Inr u \<Longrightarrow> wf_array t \<Longrightarrow> wf_array u"
  using inverse_table_fields(1,2) [of t u] by (simp add: wf_array_def)

lemma relative_between_inv_result:
  assumes sh: "shape table1 = shape table2" and w1: "wf_array table1" and w2: "wf_array table2"
    and i1: "\<forall>r\<in>set (data table1). det (poses r) \<noteq> 0"
    and i2: "\<forall>r\<in>set (data table2). det (poses r) \<noteq> 0"
    and al: "\<forall>a b. det (fst (align a b)) \<noteq> 0"
  shows "\<exists>r. relative_between_inv align table1 table2 = Inr r
           \<and> (shared_entries table1 table2 = [] \<longrightarrow> r = invalid_pose)
           \<and> (shared_entries table1 table2 \<noteq> [] \<longrightarrow> valid_poses r)"
proof -
  obtain u1 where u1: "inverse_table table1 = Inr u1"
    using inverse_table_ok [OF i1] by blast
  obtain u2 where u2: "inverse_table table2 = Inr u2"
    using inverse_table_ok [OF i2] by blast
  have s: "shape u1 = shape u2"
    using inverse_table_fields(1) [OF u1] inverse_table_fields(1) [OF u2] sh by simp
  have wu1: "wf_array u1" and wu2: "wf_array u2"
    using wf_inverse_table [OF u1 w1] wf_inverse_table [OF u2 w2] by simp_all
  have same: "shared_entries u1 u2 = shared_entries table1 table2"
  proof -
    have "\<And>idx. idx \<in> set (indices (shape table1)) \<Longrightarrow>
            valid_poses (item u1 idx) = valid_poses (item table1 idx)
            \<and> valid_poses (item u2 idx) = valid_poses (item table2 idx)"
    proof -
      fix idx assume "idx \<in> set (indices (shape table1))"
      then have v: "valid_index (shape table1) idx"
        by (simp add: valid_index_iff)
      then have r: "ravel (shape table1) idx < length (data table1)"
        "ravel (shape table1) idx < length (data table2)"
        using ravel_valid(1) [OF v] w1 w2 sh by (simp_all add: wf_array_def)
      show "valid_poses (item u1 idx) = valid_poses (item table1 idx)
            \<and> valid_poses (item u2 idx) = valid_poses (item table2 idx)"
        using inverse_table_fields(3) [OF u1 r(1)] inverse_table_fields(3) [OF u2 r(2)]
          inverse_table_fields(1) [OF u1] inverse_table_fields(1) [OF u2] sh
        by (simp add: item_def)
    qed
    then show ?thesis
      unfolding shared_entries_def inverse_table_fields(1) [OF u1]
      by (intro filter_cong [OF refl]) simp
  qed
  show ?thesis
  proof (cases "shared_entries table1 table2 = []")
    case True
    then have "relative_between align u1 u2 = Inr invalid_pose"
      using relative_between_result [OF s wu1 wu2, of align] same by simp
    then have "relative_between_inv align table1 table2 = Inr invalid_pose"
      by (simp add: relative_between_inv_def u1 u2 inverse_struct_invalid_pose)
    with True show ?thesis
      by simp
  next
    case False
    then obtain t where t: "relative_between align u1 u2 = Inr (valid_pose t)"
      and dt: "det t \<noteq> 0"
      using relative_between_result [OF s wu1 wu2, of align] same al by simp
    obtain m where "inverse_struct (valid_pose t) = Inr (valid_pose m)"
      using inverse_struct_valid_pose [OF dt] by blast
    then have "relative_between_inv align table1 table2 = Inr (valid_pose m)"
      by (simp add: relative_between_inv_def u1 u2 t)
    with False show ?thesis
      by (simp add: valid_pose_def)
  qed
qed

lemma det_eye4: "det eye4 = 1"
  by (simp add: det_def det3_def eye4_def)

lemma det_matmul_nonzero:
  assumes a: "det A \<noteq> 0" and b: "det B \<noteq> 0"
  shows "det (matmul A B) \<noteq> 0"
proof -
  obtain A' where A': "linalg_inv A = Inr A'"
    using linalg_inv_ok [OF a] by blast
  obtain B' where B': "linalg_inv B = Inr B'"
    using linalg_inv_ok [OF b] by blast
  have aa: "matmul A A' = eye4" "matmul A' A = eye4"
    using linalg_inv_matmul [OF A'] by simp_all
  have bb: "matmul B B' = eye4" "matmul B' B = eye4"
    using linalg_inv_matmul [OF B'] by simp_all
  have "matmul (matmul A B) (matmul B' A') = matmul A (matmul (matmul B B') A')"
    by (simp only: matmul_assoc)
  then have nm: "matmul (matmul A B) (matmul B' A') = eye4"
    by (simp add: bb aa matmul_eye4_left)
  have "matmul (matmul B' A') (matmul A B) = matmul B' (matmul (matmul A' A) B)"
    by (simp only: matmul_assoc)
  then have mn: "matmul (matmul B' A') (matmul A B) = eye4"
    by (simp add: bb aa matmul_eye4_left)
  show ?thesis
    using nm mn by (rule inverse_det_nonzero)
qed

lemma chain_poses_invertible:
  assumes "chain_poses align table axis pairs d = Inr d'"
    and "\<forall>k v. map_of d k = Some v \<longrightarrow> det v \<noteq> 0"
    and al: "\<forall>a b. det (fst (align a b)) \<noteq> 0"
  shows "\<forall>k v. map_of d' k = Some v \<longrightarrow> det v \<noteq> 0"
  using assms(1,2)
proof (induction pairs arbitrary: d)
  case Nil
  then show ?case by simp
next
  case (Cons pc pairs)
  obtain p c where pc: "pc = (p, c)" by (cases pc)
  from Cons.prems(1) pc obtain t pp where t: "estimate_transform align table p c axis = Inr t"
    and pp: "dict_get d p = Inr pp"
    and r: "chain_poses align table axis pairs (AList.update c (matmul t pp) d) = Inr d'"
    by (auto split: sum.splits)
  have "det t \<noteq> 0"
    using t al by (auto simp add: estimate_transform_def split: sum.splits)
  moreover have "det pp \<noteq> 0"
    using pp Cons.prems(2) by (auto simp add: dict_get_def split: option.splits)
  ultimately have "det (matmul t pp) \<noteq> 0"
    by (rule det_matmul_nonzero)
  then have "\<forall>k v. map_of (AList.update c (matmul t pp) d) k = Some v \<longrightarrow> det v \<noteq> 0"
    using Cons.prems(2) by (simp add: update_conv')
  with r show ?case
    by (rule Cons.IH)
qed

lemma camera_table_invertible:
  assumes ax: "axis < length (shape table)"
    and po: "pattern_overlaps table axis = Inr overlaps"
    and sp: "select_pairs overlaps hop_penalty = (master, pairs)"
    and mn: "master < shape table ! axis"
    and pn: "\<forall>(p, c)\<in>set pairs. p < shape table ! axis \<and> c < shape table ! axis"
    and ord: "tree_order [master] pairs"
    and al: "\<forall>a b. det (fst (align a b)) \<noteq> 0"
  shows "\<exists>cam. estimate_relative_poses select_pairs align table axis hop_penalty = Inr (cam, master)
           \<and> shape cam = [shape table ! axis]
           \<and> length (data cam) = shape table ! axis
           \<and> (\<forall>r\<in>set (data cam). det (poses r) \<noteq> 0)"
proof -
  let ?n = "shape table ! axis"
  let ?d0 = "[(master, eye4)]"
  have o0: "tree_order (map fst ?d0) pairs" and d0: "distinct (map fst ?d0)"
    using ord by simp_all
  from chain_poses_result [OF ax pn o0 d0, of align]
  obtain d where run: "chain_poses align table axis pairs ?d0 = Inr d"
    and dd: "distinct (map fst d)"
    and ks: "set (map fst d) = set (map fst ?d0) \<union> snd ` set pairs"
    by blast
  have keys: "set (map fst d) = insert master (snd ` set pairs)"
    using ks by simp
  have dne: "d \<noteq> []"
    using keys by auto
  have rng: "\<forall>k\<in>set (map fst d). k < ?n"
    unfolding keys using mn pn by auto
  from fill_poses_result [OF dd dne rng]
  obtain cam where fp: "fill_poses d ?n = Inr cam"
    and sh: "shape cam = [?n]" and len: "length (data cam) = ?n"
    and ent: "\<forall>k<?n. data cam ! k =
                 (case map_of d k of
                    None \<Rightarrow> \<lparr>poses = eye4, valid_poses = False, num_points = None\<rparr>
                  | Some p \<Rightarrow> \<lparr>poses = p, valid_poses = True, num_points = None\<rparr>)"
    by blast
  have res: "estimate_relative_poses select_pairs align table axis hop_penalty = Inr (cam, master)"
    using ax po sp run fp by (simp add: estimate_relative_poses_def)
  have "\<forall>k v. map_of ?d0 k = Some v \<longrightarrow> det v \<noteq> 0"
    by (simp add: det_eye4)
  from chain_poses_invertible [OF run this al]
  have inv: "\<forall>k v. map_of d k = Some v \<longrightarrow> det v \<noteq> 0" .
  have "\<forall>r\<in>set (data cam). det (poses r) \<noteq> 0"
  proof
    fix r assume "r \<in> set (data cam)"
    then obtain k where k: "k < ?n" "r = data cam ! k"
      using len by (metis in_set_conv_nth)
    show "det (poses r) \<noteq> 0"
    proof (cases "map_of d k")
      case None
      then show ?thesis
        using ent [rule_format, OF k(1)] k(2) by (simp add: det_eye4)
    next
      case (Some p)
      then show ?thesis
        using ent [rule_format, OF k(1)] k(2) inv by simp
    qed
  qed
  with res sh len show ?thesis
    by blast
qed

lemma mapM_map_Inr: "\<forall>x\<in>set xs. f x = Inr (g x) \<Longrightarrow> mapM f xs = Inr (map g xs)"
  by (induction xs) simp_all

lemma mapM_all_ok:
  "\<forall>x\<in>set xs. \<exists>y. f x = Inr y \<and> P x y \<Longrightarrow>
   \<exists>ys. mapM f xs = Inr ys \<and> length ys = length xs \<and> (\<forall>k<length xs. P (xs ! k) (ys ! k))"
proof (induction xs)
  case Nil
  then show ?case by simp
next
  case (Cons x xs)
  then obtain ys where ys: "mapM f xs = Inr ys" "length ys = length xs"
    "\<forall>k<length xs. P (xs ! k) (ys ! k)"
    by auto
  from Cons.prems obtain y where y: "f x = Inr y" "P x y"
    by auto
  have "\<forall>k<length (x # xs). P ((x # xs) ! k) ((y # ys) ! k)"
  proof (intro allI impI)
    fix k assume "k < length (x # xs)"
    then show "P ((x # xs) ! k) ((y # ys) ! k)"
      using y(2) ys(3) by (cases k) simp_all
  qed
  then show ?case
    using ys(1,2) y(1) by (intro exI [of _ "y # ys"]) simp
qed

lemma mapM_map: "mapM f (map g xs) = mapM (\<lambda>x. f (g x)) xs"
  by (induction xs) (simp_all split: sum.splits)

lemma indices_1d: "indices [n] = map (\<lambda>i. [i]) [0..<n]"
  by (simp add: comp_def)

lemma expand_1d:
  "shape (cam :: 'a ndarray) = [n] \<Longrightarrow> expand cam 1 = Inr \<lparr>shape = [n, 1], data = data cam\<rparr>"
  by (simp add: expand_def expand_dims_def)

lemma broadcast_to_columns:
  assumes "shape a = [n, 1]" and "shape b = [n, f]"
  shows "broadcast_to a b = Inr (tabulate [n, f] (\<lambda>idx. item a (bcast_index [n, 1] idx)))"
  using assms by (simp add: broadcast_to_def can_broadcast_def np_broadcast_to_def)

lemma sequence_axis1:
  assumes "shape a = [n, f]"
  shows "sequence a 1 =
         Inr (map (\<lambda>j. tabulate [n] (\<lambda>idx. item a (take 1 idx @ j # drop 1 idx))) [0..<f])"
proof -
  have "mapM (\<lambda>i. index_select a i 1) [0..<f]
        = Inr (map (\<lambda>j. tabulate [n] (\<lambda>idx. item a (take 1 idx @ j # drop 1 idx))) [0..<f])"
    by (rule mapM_map_Inr) (simp add: index_select_def assms)
  then show ?thesis
    by (simp add: sequence_def assms)
qed

lemma column_of_expanded:
  assumes sh: "shape cam = [n]" and len: "length (data cam) = n" and j: "j < f"
  shows "tabulate [n] (\<lambda>idx. item (tabulate [n, f]
             (\<lambda>idx. item \<lparr>shape = [n, 1], data = data cam\<rparr> (bcast_index [n, 1] idx)))
             (take 1 idx @ j # drop 1 idx))
         = (cam :: 'a ndarray)"
proof -
  have "map (\<lambda>i. item (tabulate [n, f]
             (\<lambda>idx. item \<lparr>shape = [n, 1], data = data cam\<rparr> (bcast_index [n, 1] idx))) [i, j])
          [0..<n]
        = map (\<lambda>i. data cam ! i) [0..<n]"
  proof (rule map_cong [OF refl])
    fix i assume "i \<in> set [0..<n]"
    then have i: "i < n" by simp
    then have v: "valid_index [n, f] [i, j]"
      using j by simp
    show "item (tabulate [n, f]
             (\<lambda>idx. item \<lparr>shape = [n, 1], data = data cam\<rparr> (bcast_index [n, 1] idx))) [i, j]
          = data cam ! i"
      unfolding item_tabulate [OF v] using i by (auto simp add: bcast_index_def item_def)
  qed
  also have "\<dots> = data cam"
    using map_nth [of "data cam"] len by simp
  finally show ?thesis
    using sh by (simp add: tabulate_def indices_1d comp_def del: indices.simps)
qed

lemma column_items:
  assumes shp: "shape pt = [n, f]" and j: "j < f" and i: "i < n"
  shows "item (tabulate [n] (\<lambda>idx. item pt (take 1 idx @ j # drop 1 idx))) [i] = item pt [i, j]"
  using i by (simp add: item_tabulate)

lemma column_in_data:
  assumes shp: "shape pt = [n, f]" and wp: "wf_array pt" and j: "j < f"
  shows "set (data (tabulate [n] (\<lambda>idx. item pt (take 1 idx @ j # drop 1 idx)))) \<subseteq> set (data pt)"
proof
  fix r assume "r \<in> set (data (tabulate [n] (\<lambda>idx. item pt (take 1 idx @ j # drop 1 idx))))"
  then obtain i where i: "i < n" and r: "r = item pt [i, j]"
    by (auto simp add: tabulate_def indices_1d simp del: indices.simps)
  have "valid_index (shape pt) [i, j]"
    using i j shp by simp
  then show "r \<in> set (data pt)"
    unfolding r using wp by (rule item_in_data [rotated])
qed

lemma rig_frame_result:
  assumes shp: "shape pt = [n, f]" and wp: "wf_array pt"
    and ip: "\<forall>r\<in>set (data pt). det (poses r) \<noteq> 0"
    and shc: "shape cam = [n]" and lc: "length (data cam) = n"
    and ic: "\<forall>r\<in>set (data cam). det (poses r) \<noteq> 0"
    and al: "\<forall>a b. det (fst (align a b)) \<noteq> 0"
    and j: "j < f"
  shows "\<exists>r. relative_between_inv align cam
                (tabulate [n] (\<lambda>idx. item pt (take 1 idx @ j # drop 1 idx))) = Inr r
           \<and> ((\<forall>i<n. \<not> valid_poses (item pt [i, j])) \<longrightarrow> r = invalid_pose)"
proof -
  let ?col = "tabulate [n] (\<lambda>idx. item pt (take 1 idx @ j # drop 1 idx))"
  have s: "shape cam = shape ?col"
    using shc by (simp add: shape_tabulate)
  have wc: "wf_array cam"
    using shc lc by (simp add: wf_array_def)
  have icol: "\<forall>r\<in>set (data ?col). det (poses r) \<noteq> 0"
    using column_in_data [OF shp wp j] ip by blast
  from relative_between_inv_result [OF s wc wf_tabulate ic icol al]
  obtain r where r: "relative_between_inv align cam ?col = Inr r"
    and e: "shared_entries cam ?col = [] \<longrightarrow> r = invalid_pose"
    by blast
  have "(\<forall>i<n. \<not> valid_poses (item pt [i, j])) \<longrightarrow> shared_entries cam ?col = []"
  proof
    assume none: "\<forall>i<n. \<not> valid_poses (item pt [i, j])"
    have "\<forall>idx\<in>set (indices [n]). \<not> (valid_poses (item cam idx) \<and> valid_poses (item ?col idx))"
    proof
      fix idx assume "idx \<in> set (indices [n])"
      then obtain i where i: "i < n" "idx = [i]"
        by (auto simp add: indices_1d simp del: indices.simps)
      show "\<not> (valid_poses (item cam idx) \<and> valid_poses (item ?col idx))"
        unfolding i(2) column_items [OF shp j i(1)] using none i(1) by simp
    qed
    then show "shared_entries cam ?col = []"
      unfolding shared_entries_def shc by (simp only: filter_empty_conv)
  qed
  with r e show ?thesis
    by blast
qed

section \<open>Properties of the call of stereo_calibrate\<close>

lemma other_keywords_names:
  "name \<in> set parameters \<Longrightarrow> map_of (other_keywords kwargs) name = None"
  by (induction kwargs) (auto simp add: other_keywords_def)

lemma bind_two_arguments: "bind_arguments [a, b] (other_keywords kwargs) = Inl TypeError"
proof -
  have "map_of (other_keywords kwargs) ''cameras'' = None"
    by (rule other_keywords_names) (simp add: parameters_def)
  then show ?thesis
    by (simp add: bind_arguments_def parameters_def)
qed

lemma bind_arguments_rest:
  "bind_arguments args kwargs = Inr (bound, rest) \<Longrightarrow> rest = other_keywords kwargs"
  by (simp add: bind_arguments_def split: if_splits option.splits)

lemma stereo_calibrate_self_call:
  "stereo_calibrate [a, b] (other_keywords kwargs) = Some (Inl TypeError)"
  by (subst stereo_calibrate.simps) (simp add: bind_two_arguments)

lemma example_call_bound: "bind_arguments example_call [] = Inr (example_call, [])"
  by (simp add: bind_arguments_def parameters_def example_call_def other_keywords_def)

lemma example_call_matching:
  "matching_points (PointTable example_point_table) (Board example_board) (Index 0)
     (Index 1 :: nat pyobject)
   = Inr ([[[3, 4]]], [[[5, 6]]], [[[0, 0, 0]]], [[0]])"
  by code_simp

lemma example_call_cameras:
  "getitem (Cameras [10, 11 :: nat]) (Index 0) = Inr 10"
  "getitem (Cameras [10, 11 :: nat]) (Index 1) = Inr 11"
  by (simp_all add: getitem_def list_index_def norm_index_def)

section \<open>Claims\<close>

text \<open>
  Claim C7. For every length \<open>n\<close>, every list of distinct indices \<open>ids\<close> into \<open>[0, n)\<close>
  (possibly empty) and every array \<open>values\<close> holding one row per index,
  \<open>fill_sparse n values ids\<close> returns a pair \<open>(dense, mask)\<close>: \<open>dense\<close> has length \<open>n\<close>,
  equals the corresponding row of \<open>values\<close> at every index in \<open>ids\<close> and is zero at every
  index not in \<open>ids\<close>; \<open>mask\<close> has length \<open>n\<close> and is true exactly at the indices in \<open>ids\<close>.
  The function is a pure function of its three arguments: the pair is all it produces.
\<close>

theorem fill_sparse_dense_and_mask:
  assumes "\<forall>i\<in>set ids. 0 \<le> i \<and> i < int n"
    and "length vals = length ids"
    and "distinct ids"
  shows "\<exists>dense msk. fill_sparse n vals ids = Inr (dense, msk)
           \<and> length dense = n \<and> length msk = n
           \<and> (\<forall>k<length ids. dense ! nat (ids ! k) = vals ! k)
           \<and> (\<forall>j<n. int j \<notin> set ids \<longrightarrow> dense ! j = 0)
           \<and> (\<forall>j<n. msk ! j = (int j \<in> set ids))"
proof -
  let ?dense = "assign_rows (replicate n 0) (map nat ids) vals"
  let ?mask = "assign_rows (replicate n False) (map nat ids) (replicate (length ids) True)"
  have "fill_sparse n vals ids = Inr (?dense, ?mask)"
    using assms(1,2) by (simp add: fill_sparse_def setitem_in_range setitem_scalar_in_range)
  moreover have "length ?mask = n"
    by (simp add: length_assign_rows)
  moreover have "\<forall>j<n. ?mask ! j = (int j \<in> set ids)"
    using assms(1) by (simp add: fill_tile_mask)
  ultimately show ?thesis
    using fill_tile_dense [OF assms, of 0] by blast
qed

theorem fill_sparse_dense_and_mask_witness:
  "\<exists>dense msk. fill_sparse 4 [7, 9 :: int] [2, 0] = Inr (dense, msk)
      \<and> length dense = 4 \<and> length msk = 4
      \<and> dense ! 2 = 7 \<and> dense ! 0 = 9 \<and> dense ! 1 = 0 \<and> dense ! 3 = 0
      \<and> msk ! 0 \<and> \<not> msk ! 1 \<and> msk ! 2 \<and> \<not> msk ! 3"
proof -
  have h1: "\<forall>i\<in>set [2, 0 :: int]. 0 \<le> i \<and> i < int 4" by simp
  have h2: "length [7, 9 :: int] = length [2, 0 :: int]" by simp
  have h3: "distinct [2, 0 :: int]" by simp
  from fill_sparse_dense_and_mask [OF h1 h2 h3]
  obtain dense msk where r: "fill_sparse 4 [7, 9 :: int] [2, 0] = Inr (dense, msk)"
    and l: "length dense = 4" "length msk = 4"
    and a: "\<forall>k<length [2, 0 :: int]. dense ! nat ([2, 0] ! k) = [7, 9] ! k"
    and b: "\<forall>j<4. int j \<notin> set [2, 0] \<longrightarrow> dense ! j = 0"
    and c: "\<forall>j<4. msk ! j = (int j \<in> set [2, 0])"
    by blast
  have "dense ! 2 = 7" "dense ! 0 = 9"
    using a [rule_format, of 0] a [rule_format, of 1] by simp_all
  moreover have "dense ! 1 = 0" "dense ! 3 = 0"
    using b [rule_format, of 1] b [rule_format, of 3] by simp_all
  moreover have "msk ! 0" "\<not> msk ! 1" "msk ! 2" "\<not> msk ! 3"
    using c [rule_format, of 0] c [rule_format, of 1] c [rule_format, of 2]
      c [rule_format, of 3] by simp_all
  ultimately show ?thesis
    using r l by blast
qed

text \<open>
  Claim C3. For every pose table (well-formed, every record with a point count) with \<open>n\<close>
  nodes along the chosen axis, \<open>pattern_overlaps\<close> returns an \<open>n\<close> by \<open>n\<close> matrix that is
  symmetric, has a zero diagonal, and whose entry for two different nodes \<open>i\<close>, \<open>j\<close> is
  the sum, over the positions of the remaining axes (the frames), of "both valid" times
  the smaller of the two point counts.
\<close>

theorem pattern_overlaps_symmetric_sum:
  assumes "wf_array table" and "axis < length (shape table)"
    and "\<forall>r\<in>set (data table). num_points r \<noteq> None"
  shows "\<exists>ov. pattern_overlaps table axis = Inr ov
           \<and> square (shape table ! axis) ov
           \<and> (\<forall>i<shape table ! axis. \<forall>j<shape table ! axis. ov ! i ! j = ov ! j ! i)
           \<and> (\<forall>i<shape table ! axis. ov ! i ! i = 0)
           \<and> (\<forall>i<shape table ! axis. \<forall>j<shape table ! axis.
                 i \<noteq> j \<longrightarrow> ov ! i ! j = overlap_sum table axis i j)"
proof -
  let ?n = "shape table ! axis"
  have "\<forall>i<?n. \<forall>j<?n. overlap_pair table axis i j = Inr (overlap_sum table axis i j)"
    using assms by (simp add: overlap_pair_sum)
  from pattern_overlaps_result [where W = "overlap_sum table axis", OF assms(2) this]
  obtain ov where r: "pattern_overlaps table axis = Inr ov" "square ?n ov"
    and e: "\<forall>a<?n. \<forall>b<?n. ov ! a ! b =
              (if a < b then overlap_sum table axis a b
               else if b < a then overlap_sum table axis b a else 0)"
    by blast
  have "\<forall>i<?n. \<forall>j<?n. ov ! i ! j = ov ! j ! i"
  proof (intro allI impI)
    fix i j assume ij: "i < ?n" "j < ?n"
    show "ov ! i ! j = ov ! j ! i"
      unfolding e [rule_format, OF ij] e [rule_format, OF ij(2,1)] by simp
  qed
  moreover have "\<forall>i<?n. ov ! i ! i = 0"
  proof (intro allI impI)
    fix i assume i: "i < ?n"
    show "ov ! i ! i = 0"
      unfolding e [rule_format, OF i i] by simp
  qed
  moreover have "\<forall>i<?n. \<forall>j<?n. i \<noteq> j \<longrightarrow> ov ! i ! j = overlap_sum table axis i j"
  proof (intro allI impI)
    fix i j assume ij: "i < ?n" "j < ?n" and "i \<noteq> j"
    then show "ov ! i ! j = overlap_sum table axis i j"
      unfolding e [rule_format, OF ij] using overlap_sum_commute [of table axis i j] by auto
  qed
  ultimately show ?thesis
    using r by blast
qed

theorem pattern_overlaps_symmetric_sum_witness:
  "\<exists>ov. pattern_overlaps example_pose_table 0 = Inr ov
      \<and> ov ! 0 ! 1 = 4 \<and> ov ! 1 ! 0 = 4 \<and> ov ! 0 ! 0 = 0 \<and> ov ! 1 ! 1 = 0"
proof -
  have h1: "wf_array example_pose_table"
    by (simp add: wf_array_def example_pose_table_def)
  have h2: "0 < length (shape example_pose_table)"
    by (simp add: example_pose_table_def)
  have h3: "\<forall>r\<in>set (data example_pose_table). num_points r \<noteq> None"
    by (simp add: example_pose_table_def observed_def)
  have n: "shape example_pose_table ! 0 = 2"
    by (simp add: example_pose_table_def)
  from pattern_overlaps_symmetric_sum [OF h1 h2 h3]
  obtain ov where r: "pattern_overlaps example_pose_table 0 = Inr ov"
    and s: "\<forall>i<2. \<forall>j<2. ov ! i ! j = ov ! j ! i"
    and d: "\<forall>i<2. ov ! i ! i = 0"
    and e: "\<forall>i<2. \<forall>j<2. i \<noteq> j \<longrightarrow> ov ! i ! j = overlap_sum example_pose_table 0 i j"
    unfolding n by blast
  have "ov ! 0 ! 1 = 4"
    using e [rule_format, of 0 1] by (simp del: One_nat_def add: example_overlap_sum)
  moreover have "ov ! 1 ! 0 = 4"
    using s [rule_format, of 1 0] \<open>ov ! 0 ! 1 = 4\<close> by (simp del: One_nat_def)
  moreover have "ov ! 0 ! 0 = 0" "ov ! 1 ! 1 = 0"
    using d [rule_format, of 0] d [rule_format, of 1] by (simp_all del: One_nat_def)
  ultimately show ?thesis
    using r by blast
qed

text \<open>
  Claim C1. \<open>estimate_relative_poses\<close> seeds the pose of the master with the identity,
  sets for every selected edge, taken in parent-before-child order,
  \<open>pose[child] = transform @ pose[parent]\<close> with the transform
  \<open>estimate_transform\<close> gives for the edge, and densifies the poses into a table with one
  entry per node: the entries of the nodes no edge reaches are the identity with validity
  false, and the entry of the master is the identity and is valid. The edges are what
  \<open>select_pairs\<close> returned for the overlap matrix: a tree from the master over nodes of
  the table, every parent before its children (\<open>tree_order\<close>).
\<close>

theorem estimate_relative_poses_table:
  assumes ax: "axis < length (shape table)"
    and po: "pattern_overlaps table axis = Inr overlaps"
    and sp: "select_pairs overlaps hop_penalty = (master, pairs)"
    and mn: "master < shape table ! axis"
    and pn: "\<forall>(p, c)\<in>set pairs. p < shape table ! axis \<and> c < shape table ! axis"
    and ord: "tree_order [master] pairs"
  shows "\<exists>filled.
           estimate_relative_poses select_pairs align table axis hop_penalty = Inr (filled, master)
           \<and> shape filled = [shape table ! axis]
           \<and> length (data filled) = shape table ! axis
           \<and> data filled ! master = \<lparr>poses = eye4, valid_poses = True, num_points = None\<rparr>
           \<and> (\<forall>(p, c)\<in>set pairs. \<exists>t. estimate_transform align table p c axis = Inr t
                  \<and> valid_poses (data filled ! p)
                  \<and> data filled ! c = \<lparr>poses = matmul t (poses (data filled ! p)),
                                        valid_poses = True, num_points = None\<rparr>)
           \<and> (\<forall>k<shape table ! axis. k \<noteq> master \<and> k \<notin> snd ` set pairs \<longrightarrow>
                  data filled ! k = \<lparr>poses = eye4, valid_poses = False, num_points = None\<rparr>)"
proof -
  let ?n = "shape table ! axis"
  let ?d0 = "[(master, eye4)]"
  have o0: "tree_order (map fst ?d0) pairs" and d0: "distinct (map fst ?d0)"
    using ord by simp_all
  from chain_poses_result [OF ax pn o0 d0, of align]
  obtain d where run: "chain_poses align table axis pairs ?d0 = Inr d"
    and dd: "distinct (map fst d)"
    and ks: "set (map fst d) = set (map fst ?d0) \<union> snd ` set pairs"
    and keep: "\<forall>k\<in>set (map fst ?d0). map_of d k = map_of ?d0 k"
    and edges: "\<forall>(p, c)\<in>set pairs. \<exists>t pp. estimate_transform align table p c axis = Inr t
                  \<and> map_of d p = Some pp \<and> map_of d c = Some (matmul t pp)"
    by blast
  have keys: "set (map fst d) = insert master (snd ` set pairs)"
    using ks by simp
  have dne: "d \<noteq> []"
    using keys by auto
  have rng: "\<forall>k\<in>set (map fst d). k < ?n"
    unfolding keys using mn pn by auto
  from fill_poses_result [OF dd dne rng]
  obtain filled where fp: "fill_poses d ?n = Inr filled"
    and sh: "shape filled = [?n]" and len: "length (data filled) = ?n"
    and ent: "\<forall>k<?n. data filled ! k =
                 (case map_of d k of
                    None \<Rightarrow> \<lparr>poses = eye4, valid_poses = False, num_points = None\<rparr>
                  | Some p \<Rightarrow> \<lparr>poses = p, valid_poses = True, num_points = None\<rparr>)"
    by blast
  have res: "estimate_relative_poses select_pairs align table axis hop_penalty = Inr (filled, master)"
    using ax po sp run fp by (simp add: estimate_relative_poses_def)
  have mm: "map_of d master = Some eye4"
    using keep by simp
  have e_master: "data filled ! master = \<lparr>poses = eye4, valid_poses = True, num_points = None\<rparr>"
    using ent [rule_format, OF mn] mm by simp
  have e_edges: "\<forall>(p, c)\<in>set pairs. \<exists>t. estimate_transform align table p c axis = Inr t
                  \<and> valid_poses (data filled ! p)
                  \<and> data filled ! c = \<lparr>poses = matmul t (poses (data filled ! p)),
                                        valid_poses = True, num_points = None\<rparr>"
  proof (clarify)
    fix p c assume pc: "(p, c) \<in> set pairs"
    from edges pc obtain t pp where t: "estimate_transform align table p c axis = Inr t"
      and hp: "map_of d p = Some pp" and hc: "map_of d c = Some (matmul t pp)"
      by blast
    have p: "p < ?n" and c: "c < ?n"
      using pn pc by auto
    have fp: "data filled ! p = \<lparr>poses = pp, valid_poses = True, num_points = None\<rparr>"
      using ent [rule_format, OF p] hp by simp
    have fc: "data filled ! c = \<lparr>poses = matmul t pp, valid_poses = True, num_points = None\<rparr>"
      using ent [rule_format, OF c] hc by simp
    show "\<exists>t. estimate_transform align table p c axis = Inr t
                  \<and> valid_poses (data filled ! p)
                  \<and> data filled ! c = \<lparr>poses = matmul t (poses (data filled ! p)),
                                        valid_poses = True, num_points = None\<rparr>"
      using t fp fc by simp
  qed
  have e_rest: "\<forall>k<?n. k \<noteq> master \<and> k \<notin> snd ` set pairs \<longrightarrow>
                  data filled ! k = \<lparr>poses = eye4, valid_poses = False, num_points = None\<rparr>"
  proof (intro allI impI)
    fix k assume k: "k < ?n" and out: "k \<noteq> master \<and> k \<notin> snd ` set pairs"
    then have "k \<notin> set (map fst d)"
      unfolding keys by simp
    then have "k \<notin> fst ` set d"
      by simp
    then have "map_of d k = None"
      by (rule map_of_eq_None_iff [THEN iffD2])
    then show "data filled ! k = \<lparr>poses = eye4, valid_poses = False, num_points = None\<rparr>"
      using ent [rule_format, OF k] by simp
  qed
  show ?thesis
    using res sh len e_master e_edges e_rest by blast
qed

theorem estimate_relative_poses_table_witness:
  "\<exists>filled.
     estimate_relative_poses example_select_pairs example_align example_pose_table 0 (9 / 10)
       = Inr (filled, 0)
     \<and> shape filled = [2]
     \<and> data filled ! 0 = \<lparr>poses = eye4, valid_poses = True, num_points = None\<rparr>
     \<and> data filled ! 1 = \<lparr>poses = scale 2 eye4, valid_poses = True, num_points = None\<rparr>"
proof -
  have ax: "0 < length (shape example_pose_table)"
    by (simp add: example_pose_table_def)
  have n: "shape example_pose_table ! 0 = 2"
    by (simp add: example_pose_table_def)
  have sp: "example_select_pairs [[0, 4], [4, 0]] (9 / 10) = (0, [(0, 1)])"
    by (simp add: example_select_pairs_def)
  have mn: "0 < shape example_pose_table ! 0"
    by (simp add: n)
  have pn: "\<forall>(p, c)\<in>set [(0, 1)]. p < shape example_pose_table ! 0 \<and> c < shape example_pose_table ! 0"
    by (simp add: n)
  have t: "estimate_transform example_align example_pose_table 0 1 0 = Inr (scale 2 eye4)"
    by (simp add: estimate_transform_def index_select_def example_pose_table_def example_align_def)
  from estimate_relative_poses_table [where select_pairs = example_select_pairs
      and align = example_align and hop_penalty = "9 / 10" and master = 0 and pairs = "[(0, 1)]",
      OF ax example_pattern_overlaps sp mn pn example_tree_order]
  obtain filled where
    r: "estimate_relative_poses example_select_pairs example_align example_pose_table 0 (9 / 10)
          = Inr (filled, 0)"
    and sh: "shape filled = [shape example_pose_table ! 0]"
    and m: "data filled ! 0 = \<lparr>poses = eye4, valid_poses = True, num_points = None\<rparr>"
    and e: "\<forall>(p, c)\<in>set [(0, 1)]. \<exists>t. estimate_transform example_align example_pose_table p c 0 = Inr t
                  \<and> valid_poses (data filled ! p)
                  \<and> data filled ! c = \<lparr>poses = matmul t (poses (data filled ! p)),
                                        valid_poses = True, num_points = None\<rparr>"
    by blast
  have "data filled ! 1 = \<lparr>poses = scale 2 eye4, valid_poses = True, num_points = None\<rparr>"
    using e t m by (simp add: example_two_eye)
  then show ?thesis
    using r sh m n by simp
qed

text \<open>
  Claim C2 says that the transform of an edge (parent, child) is estimated only from the
  frames in which both nodes have a valid pose. \<open>estimate_transform\<close> does not read
  \<open>valid_poses\<close>: it hands the poses of every frame to the aligner. Here for the edge
  (0, 1) of a table in which camera 1 has no pose in frame 1: the aligner receives both
  frames of both cameras, with the identity placeholder of \<open>invalid_pose\<close> as the second
  sample of camera 1, where the shared valid frames are frame 0 alone.
\<close>

theorem estimate_transform_uses_every_frame:
  "estimate_transform align example_mixed_table 0 1 0 =
     Inr (fst (align \<lparr>shape = [2], data = [scale 2 eye4, scale 3 eye4]\<rparr>
                     \<lparr>shape = [2], data = [scale 5 eye4, eye4]\<rparr>))
   \<and> shared_valid_poses example_mixed_table 0 0 1 = ([scale 2 eye4], [scale 5 eye4])"
proof -
  have ax: "0 < length (shape example_mixed_table)"
    and n: "0 < shape example_mixed_table ! 0" "1 < shape example_mixed_table ! 0"
    by (simp_all add: example_mixed_table_def)
  have "estimate_transform align example_mixed_table 0 1 0 =
     Inr (fst (align \<lparr>shape = [2], data = [scale 2 eye4, scale 3 eye4]\<rparr>
                     \<lparr>shape = [2], data = [scale 5 eye4, eye4]\<rparr>))"
    unfolding estimate_transform_rows [OF ax n]
    by (simp add: tabulate_def example_mixed_rows indices_2 invalid_pose_def del: indices.simps)
  moreover have "shared_valid_poses example_mixed_table 0 0 1 = ([scale 2 eye4], [scale 5 eye4])"
    by (simp add: shared_valid_poses_def example_mixed_rows indices_2 invalid_pose_def
        del: indices.simps)
  ultimately show ?thesis
    by simp
qed

text \<open>
  Claim C5, as amended. For every pair of pose tables whose shapes \<open>can_broadcast\<close>
  accepts (the same number of axes, and on every axis equal sizes or a size of 1),
  \<open>multiply_tables\<close> returns a table of the broadcast shape; at every index its
  validity is the conjunction of the validities of the two entries that broadcasting pairs
  there, and its pose is the matrix product of their poses.
\<close>

theorem multiply_tables_masks_and_products:
  assumes cb: "can_broadcast (shape table1) (shape table2)"
    and w1: "wf_array table1" and w2: "wf_array table2"
  shows "\<exists>product. multiply_tables table1 table2 = Inr product
           \<and> shape product = broadcast_result_shape (shape table1) (shape table2)
           \<and> wf_array product
           \<and> (\<forall>idx. valid_index (shape product) idx \<longrightarrow>
                 valid_poses (item product idx)
                   = (valid_poses (item table1 (bcast_index (shape table1) idx))
                      \<and> valid_poses (item table2 (bcast_index (shape table2) idx)))
                 \<and> poses (item product idx)
                   = matmul (poses (item table1 (bcast_index (shape table1) idx)))
                            (poses (item table2 (bcast_index (shape table2) idx))))"
proof -
  let ?s = "broadcast_result_shape (shape table1) (shape table2)"
  let ?p = "\<lambda>idx. matmul (poses (item table1 (bcast_index (shape table1) idx)))
                         (poses (item table2 (bcast_index (shape table2) idx)))"
  let ?v = "\<lambda>idx. valid_poses (item table1 (bcast_index (shape table1) idx))
                  \<and> valid_poses (item table2 (bcast_index (shape table2) idx))"
  let ?r = "tabulate ?s (\<lambda>idx. \<lparr>poses = ?p idx, valid_poses = ?v idx, num_points = None\<rparr>)"
  have "table_create (tabulate ?s ?p) (tabulate ?s ?v) = Inr ?r"
    by (simp add: table_create_def tabulate_def zip_map_same)
  then have "multiply_tables table1 table2 = Inr ?r"
    using cb broadcast2_fields [OF cb w1 w2, of matmul poses poses]
      broadcast2_fields [OF cb w1 w2, of "(\<and>)" valid_poses valid_poses]
    by (simp add: multiply_tables_def)
  moreover have "\<forall>idx. valid_index (shape ?r) idx \<longrightarrow>
      valid_poses (item ?r idx) = ?v idx \<and> poses (item ?r idx) = ?p idx"
    by (simp add: shape_tabulate item_tabulate)
  ultimately show ?thesis
    using wf_tabulate [of ?s] shape_tabulate [of ?s] by blast
qed

theorem multiply_tables_masks_and_products_witness:
  "\<exists>product. multiply_tables example_camera example_rig = Inr product
     \<and> shape product = [2, 2]
     \<and> valid_poses (item product [0, 1])
     \<and> poses (item product [0, 1]) = matmul (scale 2 eye4) (scale 5 eye4)
     \<and> \<not> valid_poses (item product [1, 0])"
proof -
  from multiply_tables_masks_and_products [OF example_camera_rig(1,2,3)]
  obtain product where r: "multiply_tables example_camera example_rig = Inr product"
    and s: "shape product = [2, 2]"
    and e: "\<forall>idx. valid_index (shape product) idx \<longrightarrow>
                 valid_poses (item product idx)
                   = (valid_poses (item example_camera (bcast_index (shape example_camera) idx))
                      \<and> valid_poses (item example_rig (bcast_index (shape example_rig) idx)))
                 \<and> poses (item product idx)
                   = matmul (poses (item example_camera (bcast_index (shape example_camera) idx)))
                            (poses (item example_rig (bcast_index (shape example_rig) idx)))"
    unfolding example_camera_rig(4) by blast
  have "valid_poses (item product [0, 1])"
    "poses (item product [0, 1]) = matmul (scale 2 eye4) (scale 5 eye4)"
    using e [rule_format, of "[0, 1]"] s by (simp_all add: example_camera_rig_items)
  moreover have "\<not> valid_poses (item product [1, 0])"
    using e [rule_format, of "[1, 0]"] s by (simp add: example_camera_rig_items)
  ultimately show ?thesis
    using r s by blast
qed

text \<open>
  Claim C5 as stated fails for tables that numpy's rule broadcasts but whose numbers of
  axes differ: for three poses as a table of shape \<^verbatim>\<open>(3,)\<close> and as one of shape
  \<^verbatim>\<open>(1, 3)\<close> the two validity masks broadcast and have a conjunction, of shape
  \<^verbatim>\<open>(1, 3)\<close>, and \<open>multiply_tables\<close> returns no table.
\<close>

theorem multiply_tables_rank_counterexample:
  "broadcast2 (\<and>) (map_array valid_poses example_row3) (map_array valid_poses example_1x3)
     = Inr \<lparr>shape = [1, 3], data = [True, True, True]\<rparr>
   \<and> multiply_tables example_row3 example_1x3 = Inl AssertionError"
proof -
  have "broadcast2 (\<and>) (map_array valid_poses example_row3) (map_array valid_poses example_1x3)
          = Inr \<lparr>shape = [1, 3], data = [True, True, True]\<rparr>"
    by code_simp
  moreover have "multiply_tables example_row3 example_1x3 = Inl AssertionError"
    by (simp add: multiply_tables_def can_broadcast_def example_row3_def example_1x3_def)
  ultimately show ?thesis
    by (intro conjI)
qed

text \<open>
  Claim C6, as amended. \<open>multiply_tables\<close> and \<open>broadcast_to\<close> fail with the assertion
  error, before anything else is computed, exactly when \<open>can_broadcast\<close> rejects the two
  shapes: when their ranks differ, or when some axis pair is unequal with neither size 1.
  For shapes of one rank in which every axis pair is equal or has a 1 the assertion
  passes, and a table that is returned has the broadcast shape: nothing is truncated.
\<close>

theorem broadcast_assertion_iff:
  "(multiply_tables table1 table2 = Inl AssertionError)
     = (\<not> can_broadcast (shape table1) (shape table2))
   \<and> (broadcast_to table1 table2 = Inl AssertionError)
     = (\<not> can_broadcast (shape table1) (shape table2))
   \<and> can_broadcast (shape table1) (shape table2)
     = (length (shape table1) = length (shape table2)
        \<and> (\<forall>k<length (shape table1).
              shape table1 ! k = shape table2 ! k \<or> shape table1 ! k = 1 \<or> shape table2 ! k = 1))
   \<and> (\<forall>product. multiply_tables table1 table2 = Inr product \<longrightarrow>
          shape product = broadcast_result_shape (shape table1) (shape table2))
   \<and> (\<forall>expanded. broadcast_to table1 table2 = Inr expanded \<longrightarrow> shape expanded = shape table2)"
proof (cases "can_broadcast (shape table1) (shape table2)")
  case True
  from multiply_tables_ok [OF True]
  obtain product where p: "multiply_tables table1 table2 = Inr product"
    "shape product = broadcast_result_shape (shape table1) (shape table2)"
    by blast
  have "\<forall>expanded. broadcast_to table1 table2 = Inr expanded \<longrightarrow> shape expanded = shape table2"
    using broadcast_to_not_assertion(2) [OF True] by blast
  with True p broadcast_to_not_assertion(1) [OF True] show ?thesis
    using can_broadcast_iff [of "shape table1" "shape table2"] by simp
next
  case False
  then have "multiply_tables table1 table2 = Inl AssertionError"
    and "broadcast_to table1 table2 = Inl AssertionError"
    by (simp_all add: multiply_tables_def broadcast_to_def)
  with False show ?thesis
    using can_broadcast_iff [of "shape table1" "shape table2"] by simp
qed

theorem broadcast_assertion_iff_witness:
  "multiply_tables example_row2 example_row3 = Inl AssertionError
   \<and> broadcast_to example_row2 example_row3 = Inl AssertionError
   \<and> multiply_tables example_camera example_rig \<noteq> Inl AssertionError
   \<and> broadcast_to example_camera example_rig \<noteq> Inl AssertionError"
proof -
  have a: "\<not> can_broadcast (shape example_row2) (shape example_row3)"
    by (simp add: can_broadcast_def example_row2_def example_row3_def)
  show ?thesis
    using broadcast_assertion_iff [of example_row2 example_row3]
      broadcast_assertion_iff [of example_camera example_rig] a example_camera_rig(1)
    by simp
qed

text \<open>
  Claim C6 as stated fails where the ranks differ: the shapes \<^verbatim>\<open>(3,)\<close> and
  \<^verbatim>\<open>(1, 3)\<close> broadcast by numpy's rule, and no axis pair the code compares is unequal
  with neither size 1, yet both functions fail their assertion.
\<close>

theorem rank_mismatch_counterexample:
  "broadcast_shapes (shape example_row3) (shape example_1x3) = Inr [1, 3]
   \<and> list_all (\<lambda>(n1, n2). n1 = n2 \<or> n1 = 1 \<or> n2 = 1)
        (zip (shape example_row3) (shape example_1x3))
   \<and> multiply_tables example_row3 example_1x3 = Inl AssertionError
   \<and> broadcast_to example_row3 example_1x3 = Inl AssertionError"
  by (simp add: broadcast_shapes_def multiply_tables_def broadcast_to_def can_broadcast_def
      example_row3_def example_1x3_def)

text \<open>
  Claim C9. For every pair of point tables (well-formed, their shapes passing
  \<open>can_broadcast\<close>, their points of one dimension), \<open>reprojection_error\<close> returns a
  mask that is the elementwise conjunction of the two validity masks and an error that is
  the Euclidean distance of the corresponding points where the mask is true and exactly 0
  where it is false; \<open>valid_reprojection_error\<close> returns the errors at the positions where
  the mask is true, in row-major order. For a table and itself every error is 0 and the
  mask is the validity mask of the table.
\<close>

theorem reprojection_error_masked:
  assumes cb: "can_broadcast (shape pts1) (shape pts2)"
    and w1: "wf_array pts1" and w2: "wf_array pts2"
    and d1: "\<forall>p\<in>set (data pts1). length (points p) = d"
    and d2: "\<forall>p\<in>set (data pts2). length (points p) = d"
  shows "(\<exists>err msk. reprojection_error pts1 pts2 = Inr (err, msk)
            \<and> shape err = broadcast_result_shape (shape pts1) (shape pts2)
            \<and> shape msk = broadcast_result_shape (shape pts1) (shape pts2)
            \<and> (\<forall>idx. valid_index (broadcast_result_shape (shape pts1) (shape pts2)) idx \<longrightarrow>
                  item msk idx
                    = (valid_points (item pts1 (bcast_index (shape pts1) idx))
                       \<and> valid_points (item pts2 (bcast_index (shape pts2) idx)))
                  \<and> item err idx
                    = (if item msk idx
                       then euclidean_distance (points (item pts1 (bcast_index (shape pts1) idx)))
                              (points (item pts2 (bcast_index (shape pts2) idx)))
                       else 0))
            \<and> valid_reprojection_error pts1 pts2
                = Inr (map (item err)
                        (filter (item msk)
                          (indices (broadcast_result_shape (shape pts1) (shape pts2))))))
         \<and> (\<exists>err msk. reprojection_error pts1 pts1 = Inr (err, msk)
            \<and> shape err = shape pts1 \<and> shape msk = shape pts1
            \<and> (\<forall>idx. valid_index (shape pts1) idx \<longrightarrow>
                  item err idx = 0 \<and> item msk idx = valid_points (item pts1 idx)))"
proof -
  let ?s = "broadcast_result_shape (shape pts1) (shape pts2)"
  let ?m = "\<lambda>idx. valid_points (item pts1 (bcast_index (shape pts1) idx))
                  \<and> valid_points (item pts2 (bcast_index (shape pts2) idx))"
  let ?e = "\<lambda>idx. if ?m idx
                  then euclidean_distance (points (item pts1 (bcast_index (shape pts1) idx)))
                         (points (item pts2 (bcast_index (shape pts2) idx)))
                  else 0"
  have r: "reprojection_error pts1 pts2 = Inr (tabulate ?s ?e, tabulate ?s ?m)"
    by (rule reprojection_error_result [OF cb w1 w2 d1 d2])
  have pt: "\<forall>idx. valid_index ?s idx \<longrightarrow>
              item (tabulate ?s ?m) idx = ?m idx
              \<and> item (tabulate ?s ?e) idx = (if item (tabulate ?s ?m) idx
                       then euclidean_distance (points (item pts1 (bcast_index (shape pts1) idx)))
                              (points (item pts2 (bcast_index (shape pts2) idx)))
                       else 0)"
    by (simp add: item_tabulate)
  have "map (item (tabulate ?s ?e)) (filter (item (tabulate ?s ?m)) (indices ?s))
        = map ?e (filter ?m (indices ?s))"
  proof -
    have "filter (item (tabulate ?s ?m)) (indices ?s) = filter ?m (indices ?s)"
      by (rule filter_cong [OF refl]) (simp add: valid_index_iff [symmetric] item_tabulate)
    moreover have "map (item (tabulate ?s ?e)) (filter ?m (indices ?s))
                   = map ?e (filter ?m (indices ?s))"
      by (rule map_cong [OF refl]) (simp add: valid_index_iff [symmetric] item_tabulate)
    ultimately show ?thesis by simp
  qed
  then have v: "valid_reprojection_error pts1 pts2
                = Inr (map (item (tabulate ?s ?e)) (filter (item (tabulate ?s ?m)) (indices ?s)))"
    unfolding valid_reprojection_error_def r
    by (simp add: boolean_index_def tabulate_def filter_zip_map)
  have first: "\<exists>err msk. reprojection_error pts1 pts2 = Inr (err, msk)
            \<and> shape err = ?s \<and> shape msk = ?s
            \<and> (\<forall>idx. valid_index ?s idx \<longrightarrow>
                  item msk idx = ?m idx
                  \<and> item err idx
                    = (if item msk idx
                       then euclidean_distance (points (item pts1 (bcast_index (shape pts1) idx)))
                              (points (item pts2 (bcast_index (shape pts2) idx)))
                       else 0))
            \<and> valid_reprojection_error pts1 pts2
                = Inr (map (item err) (filter (item msk) (indices ?s)))"
    using r pt v shape_tabulate [of ?s ?e] shape_tabulate [of ?s ?m] by blast
  have r1: "reprojection_error pts1 pts1 =
         Inr (tabulate (shape pts1)
                (\<lambda>idx. if valid_points (item pts1 (bcast_index (shape pts1) idx))
                            \<and> valid_points (item pts1 (bcast_index (shape pts1) idx))
                         then euclidean_distance (points (item pts1 (bcast_index (shape pts1) idx)))
                                (points (item pts1 (bcast_index (shape pts1) idx)))
                         else 0),
              tabulate (shape pts1)
                (\<lambda>idx. valid_points (item pts1 (bcast_index (shape pts1) idx))
                       \<and> valid_points (item pts1 (bcast_index (shape pts1) idx))))"
    using reprojection_error_result [OF can_broadcast_refl w1 w1 d1 d1]
    by (simp only: broadcast_result_shape_same)
  have second: "\<exists>err msk. reprojection_error pts1 pts1 = Inr (err, msk)
            \<and> shape err = shape pts1 \<and> shape msk = shape pts1
            \<and> (\<forall>idx. valid_index (shape pts1) idx \<longrightarrow>
                  item err idx = 0 \<and> item msk idx = valid_points (item pts1 idx))"
    unfolding r1
    by (simp add: shape_tabulate item_tabulate bcast_index_same euclidean_distance_self)
  show ?thesis
    using first second by (rule conjI)
qed

theorem reprojection_error_masked_witness:
  "\<exists>err msk. reprojection_error example_points1 example_points2 = Inr (err, msk)
     \<and> shape err = [2]
     \<and> item msk [0] \<and> item err [0] = 5
     \<and> \<not> item msk [1] \<and> item err [1] = 0
     \<and> valid_reprojection_error example_points1 example_points2 = Inr [5]"
proof -
  from reprojection_error_masked [OF example_points_facts(1-5)]
  obtain err msk where r: "reprojection_error example_points1 example_points2 = Inr (err, msk)"
    and s: "shape err = [2]"
    and e: "\<forall>idx. valid_index [2] idx \<longrightarrow>
                  item msk idx
                    = (valid_points (item example_points1 (bcast_index (shape example_points1) idx))
                       \<and> valid_points (item example_points2 (bcast_index (shape example_points2) idx)))
                  \<and> item err idx
                    = (if item msk idx
                       then euclidean_distance
                              (points (item example_points1 (bcast_index (shape example_points1) idx)))
                              (points (item example_points2 (bcast_index (shape example_points2) idx)))
                       else 0)"
    and v: "valid_reprojection_error example_points1 example_points2
                = Inr (map (item err) (filter (item msk) (indices [2])))"
    unfolding example_points_facts(6) by blast
  have a: "item msk [0]" "item err [0] = 5"
    using e [rule_format, of "[0]"] by (simp_all add: example_points_items example_distance)
  have b: "\<not> item msk [1]" "item err [1] = 0"
    using e [rule_format, of "[1]"] by (simp_all add: example_points_items)
  have "valid_reprojection_error example_points1 example_points2 = Inr [5]"
    unfolding v indices_2 using a b by simp
  then show ?thesis
    using r s a b by blast
qed

text \<open>
  Claim C8. For every pose table whose pose matrices are invertible, \<open>inverse\<close> returns a
  table, the inverse of that table is the table itself, and \<open>inverse\<close> changes nothing
  but the poses: the shape, and the validity, the point count and every further field of
  every record are the same. The arithmetic is exact here, so the two tables are equal;
  the tolerance of the claim is the rounding of floating-point numbers.
\<close>

theorem inverse_table_involution:
  assumes "\<forall>r\<in>set (data table). det (poses r) \<noteq> 0"
  shows "\<exists>inv_table. inverse_table table = Inr inv_table
           \<and> inverse_table inv_table = Inr table
           \<and> shape inv_table = shape table
           \<and> length (data inv_table) = length (data table)
           \<and> (\<forall>k<length (data table).
                 valid_poses (data inv_table ! k) = valid_poses (data table ! k)
                 \<and> num_points (data inv_table ! k) = num_points (data table ! k)
                 \<and> pose.more (data inv_table ! k) = pose.more (data table ! k)
                 \<and> linalg_inv (poses (data table ! k)) = Inr (poses (data inv_table ! k)))"
proof -
  from mapM_linalg_inv [OF assms]
  obtain ms where ms: "mapM linalg_inv (map poses (data table)) = Inr ms"
    "length ms = length (data table)" "mapM linalg_inv ms = Inr (map poses (data table))"
    by blast
  let ?rs = "map2 (\<lambda>r m. r\<lparr>poses := m\<rparr>) (data table) ms"
  let ?inv = "table\<lparr>data := ?rs\<rparr>"
  have a: "inverse_table table = Inr ?inv"
    using ms(1) by (simp add: inverse_table_def)
  have p: "map poses ?rs = ms"
    and bk: "map2 (\<lambda>r m. r\<lparr>poses := m\<rparr>) ?rs (map poses (data table)) = data table"
    using map2_set_poses [OF ms(2) [symmetric]] by simp_all
  have b: "inverse_table ?inv = Inr table"
  proof -
    have d: "data ?inv = ?rs"
      by simp
    have "mapM linalg_inv (map poses (data ?inv)) = Inr (map poses (data table))"
      unfolding d p by (rule ms(3))
    then have "inverse_table ?inv
               = Inr (?inv\<lparr>data := map2 (\<lambda>r m. r\<lparr>poses := m\<rparr>) (data ?inv) (map poses (data table))\<rparr>)"
      by (rule inverse_table_data)
    then have "inverse_table ?inv = Inr (?inv\<lparr>data := data table\<rparr>)"
      unfolding d bk .
    then show ?thesis
      by simp
  qed
  have c: "\<forall>k<length (data table).
                 valid_poses (data ?inv ! k) = valid_poses (data table ! k)
                 \<and> num_points (data ?inv ! k) = num_points (data table ! k)
                 \<and> pose.more (data ?inv ! k) = pose.more (data table ! k)
                 \<and> linalg_inv (poses (data table ! k)) = Inr (poses (data ?inv ! k))"
  proof (intro allI impI)
    fix k assume k: "k < length (data table)"
    have "linalg_inv (map poses (data table) ! k) = Inr (ms ! k)"
      using mapM_nth [OF ms(1)] k by simp
    then have "linalg_inv (poses (data table ! k)) = Inr (ms ! k)"
      using k by simp
    then show "valid_poses (data ?inv ! k) = valid_poses (data table ! k)
                 \<and> num_points (data ?inv ! k) = num_points (data table ! k)
                 \<and> pose.more (data ?inv ! k) = pose.more (data table ! k)
                 \<and> linalg_inv (poses (data table ! k)) = Inr (poses (data ?inv ! k))"
      using k ms(2) by simp
  qed
  show ?thesis
    using a b c ms(2) by (intro exI [of _ ?inv]) simp
qed

theorem inverse_table_involution_witness:
  "\<exists>inv_table. inverse_table example_camera = Inr inv_table
     \<and> inverse_table inv_table = Inr example_camera
     \<and> shape inv_table = [2, 1]
     \<and> poses (data inv_table ! 0) = scale (1 / 2) eye4
     \<and> valid_poses (data inv_table ! 0) \<and> \<not> valid_poses (data inv_table ! 1)"
proof -
  from inverse_table_involution [OF example_camera_invertible]
  obtain inv_table where a: "inverse_table example_camera = Inr inv_table"
    and b: "inverse_table inv_table = Inr example_camera"
    and s: "shape inv_table = shape example_camera"
    and e: "\<forall>k<length (data example_camera).
                 valid_poses (data inv_table ! k) = valid_poses (data example_camera ! k)
                 \<and> num_points (data inv_table ! k) = num_points (data example_camera ! k)
                 \<and> pose.more (data inv_table ! k) = pose.more (data example_camera ! k)
                 \<and> linalg_inv (poses (data example_camera ! k)) = Inr (poses (data inv_table ! k))"
    by blast
  have l: "length (data example_camera) = 2"
    and d0: "data example_camera ! 0 = \<lparr>poses = scale 2 eye4, valid_poses = True, num_points = None\<rparr>"
    and d1: "data example_camera ! 1 = \<lparr>poses = eye4, valid_poses = False, num_points = None\<rparr>"
    by (simp_all add: example_camera_def)
  have "poses (data inv_table ! 0) = scale (1 / 2) eye4" "valid_poses (data inv_table ! 0)"
    using e [rule_format, of 0] by (simp_all add: l d0 example_linalg_inv)
  moreover have "\<not> valid_poses (data inv_table ! 1)"
    using e [rule_format, of 1] by (simp add: l d1 del: One_nat_def)
  moreover have "shape inv_table = [2, 1]"
    using s by (simp add: example_camera_def)
  ultimately show ?thesis
    using a b by blast
qed

text \<open>
  Claim C4 says that \<open>relative_between\<close> fails soft to \<open>invalid_pose\<close> when no entry
  is valid in both tables, and that \<open>initialise_poses\<close> consequently gives an invalid rig
  pose to a frame in which no camera has a valid pose. \<open>relative_between\<close> does return
  \<open>invalid_pose\<close> for such a frame, but \<open>relative_between_n\<close> then stacks the structs
  of all frames, and \<open>invalid_pose\<close> has the field \<^verbatim>\<open>num_points\<close> where
  \<open>valid_pose t\<close> has not. With no camera seeing the board in frame 0 and both seeing it
  in frame 1, the first struct is \<open>invalid_pose\<close>, \<^verbatim>\<open>num_points\<close> is asked of the valid
  pose of frame 1, and \<open>initialise_poses\<close> raises \<^verbatim>\<open>KeyError\<close> instead of returning a
  rig table. With the two frames exchanged the rig table is returned, and its pose for the
  dark frame is the identity with validity false. \<^verbatim>\<open>extract_pose\<close>, which builds the
  same two kinds of struct for \<^verbatim>\<open>make_pose_table\<close>, adds \<^verbatim>\<open>num_points\<close> to the
  valid one.
\<close>

theorem initialise_poses_dark_first_frame:
  "initialise_poses example_select_pairs example_align example_dark_first = Inl KeyError
   \<and> table_stack [invalid_pose, valid_pose (scale (1 / 2) eye4)] = Inl KeyError
   \<and> initialise_poses example_select_pairs example_align example_dark_frame
       = Inr \<lparr>rig = \<lparr>shape = [2],
                      data = [valid_pose (scale (1 / 2) eye4),
                              \<lparr>poses = eye4, valid_poses = False, num_points = None\<rparr>]\<rparr>,
              camera = \<lparr>shape = [2], data = [valid_pose eye4, valid_pose (scale 2 eye4)]\<rparr>\<rparr>"
proof -
  have "initialise_poses example_select_pairs example_align example_dark_first = Inl KeyError"
    by code_simp
  moreover have "table_stack [invalid_pose, valid_pose (scale (1 / 2) eye4)] = Inl KeyError"
    by (simp add: table_stack_def invalid_pose_def valid_pose_def)
  moreover have "initialise_poses example_select_pairs example_align example_dark_frame
       = Inr \<lparr>rig = \<lparr>shape = [2],
                      data = [valid_pose (scale (1 / 2) eye4),
                              \<lparr>poses = eye4, valid_poses = False, num_points = None\<rparr>]\<rparr>,
              camera = \<lparr>shape = [2], data = [valid_pose eye4, valid_pose (scale 2 eye4)]\<rparr>\<rparr>"
    by code_simp
  ultimately show ?thesis
    by (intro conjI)
qed

text \<open>
  Claim C10, as amended. Every call of \<open>stereo_calibrate\<close> comes back, and it comes back
  with an exception, never with a value: the exception of the argument binding, of
  \<open>matching_points\<close> or of one of the two camera lookups when one of them raises, and
  otherwise the \<^verbatim>\<open>TypeError\<close> of the call the function makes to itself. That call has
  two positional arguments and the keyword arguments that name no parameter, so that the
  parameters \<^verbatim>\<open>cameras\<close>, \<^verbatim>\<open>i\<close> and \<^verbatim>\<open>j\<close> get no argument, and it is rejected
  before the body runs a second time.
\<close>

theorem stereo_calibrate_always_raises:
  "stereo_calibrate args kwargs =
     Some (Inl (case bind_arguments args kwargs of
                  Inl e \<Rightarrow> e
                | Inr (bound, rest) \<Rightarrow>
                    (case matching_points (bound ! 0) (bound ! 1) (bound ! 3) (bound ! 4) of
                       Inl e \<Rightarrow> e
                     | Inr matching \<Rightarrow>
                         (case getitem (bound ! 2) (bound ! 3) of
                            Inl e \<Rightarrow> e
                          | Inr camera_i \<Rightarrow>
                              (case getitem (bound ! 2) (bound ! 4) of
                                 Inl e \<Rightarrow> e
                               | Inr camera_j \<Rightarrow> TypeError)))))
   \<and> stereo_calibrate [a, b] (other_keywords kwargs) = Some (Inl TypeError)"
proof (cases "bind_arguments args kwargs")
  case (Inl e)
  then have "stereo_calibrate args kwargs = Some (Inl e)"
    by (subst stereo_calibrate.simps) simp
  with Inl show ?thesis
    by (simp add: stereo_calibrate_self_call)
next
  case (Inr r)
  obtain bound rest where r: "r = (bound, rest)"
    by (cases r)
  have rest: "rest = other_keywords kwargs"
    using Inr r by (simp add: bind_arguments_rest)
  have "stereo_calibrate args kwargs =
     Some (Inl (case matching_points (bound ! 0) (bound ! 1) (bound ! 3) (bound ! 4) of
                  Inl e \<Rightarrow> e
                | Inr matching \<Rightarrow>
                    (case getitem (bound ! 2) (bound ! 3) of
                       Inl e \<Rightarrow> e
                     | Inr camera_i \<Rightarrow>
                         (case getitem (bound ! 2) (bound ! 4) of
                            Inl e \<Rightarrow> e
                          | Inr camera_j \<Rightarrow> TypeError))))"
    by (subst stereo_calibrate.simps)
      (simp add: Inr r rest stereo_calibrate_self_call Let_def split: sum.splits)
  then show ?thesis
    by (simp add: Inr r stereo_calibrate_self_call)
qed

text \<open>
  Claim C10 as stated fails on every input, for instance on the call with a point table of
  two cameras and one frame, a board, two cameras, the indices 0 and 1 and no keyword
  argument: the matched points and the two cameras are computed, the function calls
  itself, and the call comes back with \<^verbatim>\<open>TypeError\<close>.
\<close>

theorem stereo_calibrate_returns_counterexample:
  "stereo_calibrate example_call [] = Some (Inl TypeError)
   \<and> stereo_calibrate example_call [] \<noteq> None"
proof -
  have "stereo_calibrate
          [CameraPair 10 11, Matching ([[[3, 4]]], [[[5, 6]]], [[[0, 0, 0]]], [[0]])]
          (other_keywords []) = Some (Inl TypeError)"
    by (rule stereo_calibrate_self_call)
  then have "stereo_calibrate example_call [] = Some (Inl TypeError)"
    by (subst stereo_calibrate.simps)
      (simp add: example_call_bound,
        simp add: example_call_def example_call_matching example_call_cameras
          other_keywords_def)
  then show ?thesis
    by simp
qed

end
